theory Spec2Isabelle
  imports Main "HOL-Library.Sublist" "HOL-Library.Multiset"
begin

chapter \<open>The feed synchronizer of rssbot\<close>

text \<open>
  A model of \<open>processFeed\<close> (package \<open>main\<close>) and of \<open>Hex2int\<close>, \<open>NewMessage\<close>,
  \<open>AddEmbed\<close>, \<open>IsValid\<close> and \<open>Send\<close> (package \<open>webhook\<close>). The feed that
  \<open>processFeed\<close> mutates through its pointer is passed in and returned; the sends and
  sleeps are recorded in a trace; a panic is an outcome. What the libraries and the
  network answer is a parameter of the model. Line numbers are those of the source
  file of package \<open>main\<close>.
\<close>

section \<open>Strings (Go package \<open>strings\<close>)\<close>

text \<open>
  A Go string is a sequence of bytes; \<^typ>\<open>string\<close> is a list of 8-bit characters,
  so \<^const>\<open>length\<close> is Go's \<open>len\<close> and \<^const>\<open>take\<close> is a byte-exact slice.
\<close>

text \<open>
  \<open>strings.Replace(s, old, new, -1)\<close> and \<open>strings.ReplaceAll(s, old, new)\<close>: every
  non-overlapping occurrence of \<open>old\<close>, found from the left, is replaced. The program
  only calls it with a non-empty \<open>old\<close>; for an empty \<open>old\<close> (where Go inserts \<open>new\<close>
  around every rune) this model returns \<open>s\<close> and is not meant to be used.
\<close>

function ReplaceAll :: "string \<Rightarrow> string \<Rightarrow> string \<Rightarrow> string" where
  "ReplaceAll [] old new = []"
| "ReplaceAll (c # cs) old new =
     (if old \<noteq> [] \<and> prefix old (c # cs)
      then new @ ReplaceAll (drop (length old) (c # cs)) old new
      else c # ReplaceAll cs old new)"
  by pat_completeness auto
termination
  by (relation "measure (\<lambda>(s, old, new). length s)") (auto simp: neq_Nil_conv)

text \<open>\<open>strings.TrimPrefix(s, prefix)\<close>: \<open>s\<close> without the prefix when it has it.\<close>

definition TrimPrefix :: "string \<Rightarrow> string \<Rightarrow> string" where
  "TrimPrefix s p = (if prefix p s then drop (length p) s else s)"

section \<open>Parsing hexadecimal (Go package \<open>strconv\<close>)\<close>

datatype NumError = ErrSyntax | ErrRange

text \<open>
  The digit a byte stands for in \<open>strconv.ParseUint\<close>: \<open>'0'..'9'\<close> are 0 to 9, and a
  letter, upper or lower case, is 10 to 35. Go lowers the byte with \<open>c | ('x' - 'X')\<close>;
  the bytes that land in \<open>'a'..'z'\<close> are the upper case letters 65 to 90 and the lower
  case letters 97 to 122.
\<close>

definition digit_of :: "char \<Rightarrow> int option" where
  "digit_of c =
     (let b = (of_char c :: int) in
      if 48 \<le> b \<and> b \<le> 57 then Some (b - 48)
      else if 97 \<le> b \<and> b \<le> 122 then Some (b - 97 + 10)
      else if 65 \<le> b \<and> b \<le> 90 then Some (b - 65 + 10)
      else None)"

text \<open>
  The loop of \<open>strconv.ParseUint(s, 16, 64)\<close> on the bytes left to read, \<open>n\<close> the
  \<open>uint64\<close> read so far: a byte that is no digit below the base is a syntax error;
  \<open>n \<ge> cutoff\<close> (\<open>cutoff = maxUint64 / 16 + 1 = 2 ^ 60\<close>) means \<open>n * 16\<close> would
  overflow; the sum is checked for wrap-around and against \<open>maxVal = 2 ^ 64 - 1\<close>.
  The \<open>uint64\<close> arithmetic is written with its wrap-around.
\<close>

fun ParseUint_loop :: "int \<Rightarrow> string \<Rightarrow> NumError + int" where
  "ParseUint_loop n [] = Inr n"
| "ParseUint_loop n (c # cs) =
     (case digit_of c of
        None \<Rightarrow> Inl ErrSyntax
      | Some d \<Rightarrow>
          if d \<ge> 16 then Inl ErrSyntax
          else if n \<ge> 2 ^ 60 then Inl ErrRange
          else (let n16 = (n * 16) mod 2 ^ 64;
                    n1 = (n16 + d) mod 2 ^ 64
                in if n1 < n16 \<or> n1 > 2 ^ 64 - 1 then Inl ErrRange
                   else ParseUint_loop n1 cs))"

definition ParseUint :: "string \<Rightarrow> NumError + int" where
  "ParseUint s = (if s = [] then Inl ErrSyntax else ParseUint_loop 0 s)"

text \<open>
  \<open>strconv.ParseInt(s, 16, 64)\<close>: an optional sign, then \<open>ParseUint\<close>; the magnitude
  must fit \<open>int64\<close> (\<open>cutoff = 2 ^ 63\<close>). On a range error Go also returns the nearest
  bound, which \<open>Hex2int\<close> discards, so the model returns the error alone.
\<close>

definition ParseInt :: "string \<Rightarrow> NumError + int" where
  "ParseInt s =
     (if s = [] then Inl ErrSyntax
      else (let neg = (hd s = CHR ''-'');
                s1 = (if hd s = CHR ''+'' \<or> hd s = CHR ''-'' then tl s else s)
            in case ParseUint s1 of
                 Inl ErrSyntax \<Rightarrow> Inl ErrSyntax
               | Inl ErrRange \<Rightarrow> Inl ErrRange
               | Inr un \<Rightarrow>
                   if \<not> neg \<and> un \<ge> 2 ^ 63 then Inl ErrRange
                   else if neg \<and> un > 2 ^ 63 then Inl ErrRange
                   else Inr (if neg then - un else un)))"

section \<open>\<open>webhook/utils.go\<close>\<close>

text \<open>
  \<open>Hex2int\<close>: every \<open>0x\<close> is removed, one leading \<open>#\<close> is trimmed, the rest is read as
  a base 16 \<open>int64\<close>; on an error the error is logged and 0 is returned. The final
  \<open>int(result)\<close> is the identity where \<open>int\<close> has 64 bits.
\<close>

definition Hex2int :: "string \<Rightarrow> int" where
  "Hex2int hexStr =
     (let cleaned = ReplaceAll hexStr ''0x'' '''';
          cleaned = TrimPrefix cleaned ''#''
      in case ParseInt cleaned of
           Inl err \<Rightarrow> 0
         | Inr result \<Rightarrow> result)"

section \<open>Time (Go package \<open>time\<close>)\<close>

text \<open>
  A \<open>time.Time\<close> as an instant: \<open>Unix\<close> is the number of seconds since the epoch, as
  \<open>t.Unix()\<close> returns it, and \<open>Nanosecond\<close> the offset within that second. The location
  and the monotonic clock reading take no part in \<open>Unix\<close> or \<open>Before\<close>.
\<close>

datatype Time = Time (Unix: int) (Nanosecond: int)

definition Before :: "Time \<Rightarrow> Time \<Rightarrow> bool" where
  "Before t u = (Unix t < Unix u \<or> (Unix t = Unix u \<and> Nanosecond t < Nanosecond u))"

section \<open>The configuration: \<open>Feed\<close>\<close>

record Feed =
  Hooks :: "string list"
  Color :: string
  LastPublished :: Time
  LastRun :: Time
  LastUpdated :: Time
  Periode :: int
  URL :: string

section \<open>The fetched document (package \<open>gofeed\<close>)\<close>

text \<open>
  The fields of \<open>gofeed.Feed\<close> and \<open>gofeed.Item\<close> that \<open>processFeed\<close> reads. The two
  parsed timestamps and the item's image are pointers: \<open>None\<close> is \<open>nil\<close>.
\<close>

datatype gofeed_Image = gofeed_Image (ImageURL: string) (ImageTitle: string)

record Item =
  ItemTitle :: string
  ItemDescription :: string
  ItemLink :: string
  Published :: string
  PublishedParsed :: "Time option"
  ItemImage :: "gofeed_Image option"

record RssFeed =
  UpdatedParsed :: "Time option"
  Items :: "Item list"

section \<open>The parsed description (package \<open>goquery\<close>)\<close>

text \<open>
  An HTML tree: an element has a tag, its attributes in order and its children.
  \<open>Find\<close> with a tag name as selector returns the descendants of the root with that
  tag, in document order; \<open>Attr\<close> returns the value of an attribute when the element has
  it (\<open>exists\<close> in Go).
\<close>

datatype Node = Element string "(string \<times> string) list" "Node list" | Text string

fun matching :: "string \<Rightarrow> Node \<Rightarrow> Node list" where
  "matching sel (Text t) = []"
| "matching sel (Element tag attrs kids) =
     (if tag = sel then [Element tag attrs kids] else []) @ concat (map (matching sel) kids)"

fun Find :: "Node \<Rightarrow> string \<Rightarrow> Node list" where
  "Find (Text t) sel = []"
| "Find (Element tag attrs kids) sel = concat (map (matching sel) kids)"

fun Attr :: "Node \<Rightarrow> string \<Rightarrow> string option" where
  "Attr (Text t) name = None"
| "Attr (Element tag attrs kids) name = map_of attrs name"

text \<open>
  \<open>EachWithBreak\<close> calls \<open>f\<close> on every element of the selection with its index, until
  \<open>f\<close> returns false. The variables the Go closure assigns are the state \<open>v\<close>.
\<close>

fun EachWithBreak :: "(nat \<Rightarrow> Node \<Rightarrow> 'v \<Rightarrow> 'v \<times> bool) \<Rightarrow> nat \<Rightarrow> Node list \<Rightarrow> 'v \<Rightarrow> 'v" where
  "EachWithBreak f i [] v = v"
| "EachWithBreak f i (s # ss) v =
     (case f i s v of
        (v', True) \<Rightarrow> EachWithBreak f (Suc i) ss v'
      | (v', False) \<Rightarrow> v')"

section \<open>The regular expression \<open>nl\<close>\<close>

text \<open>
  \<open>nl = regexp.MustCompile(`\n{3,}`)\<close> and \<open>nl.ReplaceAllString(src, repl)\<close>, for a
  \<open>repl\<close> without \<open>$\<close>: matches are leftmost and greedy, so each maximal run of line
  feeds of length three or more is one match and is replaced by \<open>repl\<close>; shorter runs
  and all other bytes are copied.
\<close>

function nl_ReplaceAllString :: "string \<Rightarrow> string \<Rightarrow> string" where
  "nl_ReplaceAllString [] repl = []"
| "nl_ReplaceAllString (c # cs) repl =
     (if c = CHR 0x0A
      then (let run = takeWhile (\<lambda>x. x = CHR 0x0A) (c # cs);
                rest = dropWhile (\<lambda>x. x = CHR 0x0A) (c # cs)
            in (if length run \<ge> 3 then repl else run) @ nl_ReplaceAllString rest repl)
      else c # nl_ReplaceAllString cs repl)"
  by pat_completeness auto
termination
  by (relation "measure (\<lambda>(s, repl). length s)")
     (auto simp: less_Suc_eq_le length_dropWhile_le)

section \<open>\<open>webhook\<close>: messages and embeds\<close>

datatype EmbedImage =
  EmbedImage (EmbedImage_URL: string) (EmbedImage_ProxyURL: string)
    (EmbedImage_Height: int) (EmbedImage_Width: int)

datatype EmbedThumbnail =
  EmbedThumbnail (EmbedThumbnail_URL: string) (EmbedThumbnail_ProxyURL: string)
    (EmbedThumbnail_Height: int) (EmbedThumbnail_Width: int)

datatype EmbedAuthor =
  EmbedAuthor (EmbedAuthor_Name: string) (EmbedAuthor_URL: string)
    (EmbedAuthor_IconURL: string) (EmbedAuthor_ProxyIconURL: string)

text \<open>
  The \<open>Embed\<close> fields that \<open>processFeed\<close> sets. \<open>Footer\<close>, \<open>Video\<close>, \<open>Provider\<close> and
  \<open>Fields\<close> stay \<open>nil\<close> in this program and are left out.
\<close>

record Embed =
  Title :: string
  Type :: string
  Description :: string
  Embed_URL :: string
  Timestamp :: "Time option"
  Embed_Color :: int
  Image :: "EmbedImage option"
  Thumbnail :: "EmbedThumbnail option"
  Author :: "EmbedAuthor option"

datatype AllowedMentions =
  AllowedMentions (Parse: "string list") (Roles: "string list") (Users: "string list")

text \<open>\<open>Embeds\<close> is a slice: \<open>None\<close> is the \<open>nil\<close> slice, which \<open>IsValid\<close> tells from an empty one.\<close>

record Message =
  url :: string
  Content :: string
  Username :: string
  AvatarURL :: string
  TTS :: bool
  Embeds :: "Embed list option"
  Mentions :: "AllowedMentions option"

definition TypeRich :: string where
  "TypeRich = ''rich''"

definition AddEmbed :: "Message \<Rightarrow> Embed \<Rightarrow> Message" where
  "AddEmbed w e =
     (let w1 = (if Embeds w = None then w\<lparr>Embeds := Some []\<rparr> else w)
      in w1\<lparr>Embeds := Some (the (Embeds w1) @ [e])\<rparr>)"

definition IsValid :: "Message \<Rightarrow> string option" where
  "IsValid w =
     (let f = (0::nat);
          f = (if Content w \<noteq> [] then f + 1 else f);
          f = (if Embeds w \<noteq> None then f + 1 else f)
      in if f > 1 then Some ''only one of content, file or embeds is allowed'' else None)"

section \<open>The world outside the program\<close>

text \<open>
  What one run of \<open>processFeed\<close> gets from outside, as the parameters of the model:
  \<^item> \<open>ParseURLWithContext\<close>: the fetch and parse of the feed's URL under the 8 second
    deadline; \<open>Inl\<close> is any error (network, parse, deadline, cancellation);
  \<^item> \<open>sort_Sort\<close>: the order in which \<open>sort.Sort\<close> leaves the items. The sort compares
    with \<open>gofeed\<close>'s \<open>Less\<close> (\<open>Before\<close> on \<open>PublishedParsed\<close>) and is not stable, so the
    order among equal timestamps is the library's choice;
  \<^item> \<open>NewDocumentFromReader\<close>: \<open>goquery\<close>'s HTML parser; \<open>Inl\<close> is its error;
  \<^item> \<open>Sanitize\<close>: \<open>bluemonday.StrictPolicy().Sanitize\<close>;
  \<^item> \<open>url_Parse\<close>: \<open>url.Parse\<close> followed by \<open>String()\<close> on the result; \<open>Inl\<close> is the error;
  \<^item> \<open>Post\<close>: what encoding and posting a valid message returns (\<open>None\<close> is \<open>nil\<close>), by
    the number of effects the run has had before it;
  \<^item> \<open>Now\<close>: the clock when the run reaches \<open>time.Now()\<close>.
\<close>

record Env =
  ParseURLWithContext :: "string \<Rightarrow> string + RssFeed"
  sort_Sort :: "Item list \<Rightarrow> Item list"
  NewDocumentFromReader :: "string \<Rightarrow> string + Node"
  Sanitize :: "string \<Rightarrow> string"
  url_Parse :: "string \<Rightarrow> string + string"
  Post :: "nat \<Rightarrow> Message \<Rightarrow> string option"
  Now :: Time

text \<open>
  \<open>NewMessage\<close> panics when the hook URL does not parse (\<open>Inl\<close>). The \<open>wait\<close> parameter
  is added to a copy of the query that is dropped, so it does not reach the URL.
\<close>

definition NewMessage :: "Env \<Rightarrow> string \<Rightarrow> bool \<Rightarrow> string + Message" where
  "NewMessage env hookURL wait =
     (case url_Parse env hookURL of
        Inl err \<Rightarrow> Inl err
      | Inr u \<Rightarrow> Inr \<lparr>url = u, Content = [], Username = [], AvatarURL = [], TTS = False,
                       Embeds = None, Mentions = None\<rparr>)"

definition Send :: "Env \<Rightarrow> nat \<Rightarrow> Message \<Rightarrow> string option" where
  "Send env k w =
     (case IsValid w of
        Some err \<Rightarrow> Some err
      | None \<Rightarrow> Post env k w)"

section \<open>\<open>processFeed\<close>\<close>

text \<open>
  The state of a run: the \<open>Feed\<close> it mutates through its pointer, and the effects it has
  had so far, oldest first. A \<open>SendAttempt\<close> is one call of \<open>msg.Send()\<close>: it records the
  feed as it stands at the call, the message and what \<open>Send\<close> returned; \<open>Sleep\<close> is a
  \<open>time.Sleep\<close> of so many milliseconds.
\<close>

datatype event = SendAttempt Feed Message "string option" | Sleep nat

record pstate =
  feed :: Feed
  trace :: "event list"

text \<open>
  A run returns, or panics (which ends the process) in the state it had reached.
\<close>

datatype 'a outcome = Returned 'a | Panicked string 'a

fun state_of :: "'a outcome \<Rightarrow> 'a" where
  "state_of (Returned s) = s"
| "state_of (Panicked msg s) = s"

fun returned :: "'a outcome \<Rightarrow> bool" where
  "returned (Returned s) = True"
| "returned (Panicked msg s) = False"

definition nil_dereference :: string where
  "nil_dereference = ''invalid memory address or nil pointer dereference''"

text \<open>
  Lines 189 to 196: the \<open>src\<close> of the first \<open>img\<close> element, when it has one. (The Go
  variable \<open>image\<close> is \<open>image_url\<close> here.)
\<close>

definition first_image :: "Node \<Rightarrow> string" where
  "first_image doc =
     EachWithBreak
       (\<lambda>i s image_url. (case Attr s ''src'' of Some img \<Rightarrow> img | None \<Rightarrow> image_url, False))
       0 (Find doc ''img'') []"

text \<open>Lines 198 to 200: the sanitized description.\<close>

definition sanitized :: "Env \<Rightarrow> string \<Rightarrow> string" where
  "sanitized env description =
     (let desc = Sanitize env description;
          desc = ReplaceAll desc [CHR 0x09] [];
          desc = nl_ReplaceAllString desc [CHR 0x0A]
      in desc)"

text \<open>Lines 201 to 204.\<close>

definition cap_of :: "string \<Rightarrow> nat" where
  "cap_of desc = (if length desc < 500 then length desc else 500)"

text \<open>
  Lines 207 to 235: the embed built for one hook. \<open>desc[0:cap]\<close> is in range, since
  \<open>cap\<close> is at most \<open>len(desc)\<close> where it is called.
\<close>

definition newEmbed :: "Feed \<Rightarrow> Item \<Rightarrow> string \<Rightarrow> nat \<Rightarrow> string \<Rightarrow> Embed" where
  "newEmbed fd news desc cap image_url =
     (let e = \<lparr>Title = ItemTitle news,
                Type = TypeRich,
                Description = take cap desc @ ''...'',
                Embed_URL = ItemLink news,
                Timestamp = PublishedParsed news,
                Embed_Color = Hex2int (Color fd),
                Image = None,
                Thumbnail = Some (EmbedThumbnail
                  ''https://static.mmo-champion.com/images/tranquilizing/logo.png'' [] 90 157),
                Author = Some (EmbedAuthor ''By Purple Haze'' ''https://purplehazeeu.com''
                  ''https://purplehazeeu.com/wp/wp-content/uploads/2020/09/ph-logo-smal.png'' [])\<rparr>;
          e = (if image_url \<noteq> [] then e\<lparr>Image := Some (EmbedImage image_url [] 0 0)\<rparr> else e);
          e = (case ItemImage news of
                 None \<Rightarrow> e
               | Some im \<Rightarrow> e\<lparr>Thumbnail := Some (EmbedThumbnail (ImageURL im) [] 0 0)\<rparr>)
      in e)"

text \<open>Lines 205 to 241: the loop over the hooks, for one item.\<close>

fun hooks_loop ::
  "Env \<Rightarrow> Item \<Rightarrow> string \<Rightarrow> nat \<Rightarrow> string \<Rightarrow> string list \<Rightarrow> pstate \<Rightarrow> pstate outcome" where
  "hooks_loop env news desc cap image_url [] st = Returned st"
| "hooks_loop env news desc cap image_url (hookURL # hooks) st =
     (case NewMessage env hookURL True of
        Inl err \<Rightarrow> Panicked err st
      | Inr msg \<Rightarrow>
          (let e = newEmbed (feed st) news desc cap image_url;
               msg1 = AddEmbed msg e;
               err = Send env (length (trace st)) msg1;
               st1 = st\<lparr>trace := trace st @ [SendAttempt (feed st) msg1 err, Sleep 100]\<rparr>
           in hooks_loop env news desc cap image_url hooks st1))"

text \<open>
  Lines 179 to 243: the loop over the items. \<open>news.PublishedParsed.Unix()\<close> on a \<open>nil\<close>
  pointer panics; an item whose description does not parse is skipped after the
  watermark has moved (\<open>continue\<close>).
\<close>

fun items_loop :: "Env \<Rightarrow> Item list \<Rightarrow> pstate \<Rightarrow> pstate outcome" where
  "items_loop env [] st = Returned st"
| "items_loop env (news # rest) st =
     (case PublishedParsed news of
        None \<Rightarrow> Panicked nil_dereference st
      | Some published \<Rightarrow>
          if Unix (LastPublished (feed st)) < Unix published
          then (let st1 = st\<lparr>feed := (feed st)\<lparr>LastPublished := published\<rparr>\<rparr>
                in case NewDocumentFromReader env (ItemDescription news) of
                     Inl err \<Rightarrow> items_loop env rest st1
                   | Inr doc \<Rightarrow>
                       (let image_url = first_image doc;
                            desc = sanitized env (ItemDescription news);
                            cap = cap_of desc
                        in case hooks_loop env news desc cap image_url (Hooks (feed st1)) st1 of
                             Panicked msg st2 \<Rightarrow> Panicked msg st2
                           | Returned st2 \<Rightarrow> items_loop env rest st2))
          else items_loop env rest st)"

text \<open>
  \<open>sort.Sort(rssFeed)\<close> calls \<open>Less\<close> on every item when there are two or more, and
  \<open>Less\<close> dereferences both \<open>PublishedParsed\<close> pointers: the sort panics when an item
  has none.
\<close>

definition sort_panics :: "Item list \<Rightarrow> bool" where
  "sort_panics items = (length items \<ge> 2 \<and> None \<in> set (map PublishedParsed items))"

text \<open>
  \<open>processFeed\<close>, for the feed \<open>fd\<close>. The deferred release of the semaphore and the
  wait group are the scheduler's and are not part of the model.
\<close>

definition processFeed :: "Env \<Rightarrow> Feed \<Rightarrow> pstate outcome" where
  "processFeed env fd =
     (let st = \<lparr>feed = fd, trace = []\<rparr>
      in case ParseURLWithContext env (URL fd) of
           Inl err \<Rightarrow> Returned st
         | Inr rssFeed \<Rightarrow>
             if sort_panics (Items rssFeed) then Panicked nil_dereference st
             else (let items = sort_Sort env (Items rssFeed)
                   in case UpdatedParsed rssFeed of
                        None \<Rightarrow> Panicked nil_dereference st
                      | Some updated \<Rightarrow>
                          if Unix (LastUpdated (feed st)) < Unix updated
                          then (case items_loop env items st of
                                  Panicked msg st1 \<Rightarrow> Panicked msg st1
                                | Returned st1 \<Rightarrow>
                                    (let st2 = st1\<lparr>feed := (feed st1)\<lparr>LastUpdated := updated\<rparr>\<rparr>
                                     in Returned (st2\<lparr>feed := (feed st2)\<lparr>LastRun := Now env\<rparr>\<rparr>)))
                          else Returned (st\<lparr>feed := (feed st)\<lparr>LastRun := Now env\<rparr>\<rparr>)))"

text \<open>
  A sequence of synchronization attempts on one feed, each in its own world. A panic
  ends the process, and with it the sequence.
\<close>

fun attempts :: "Env list \<Rightarrow> Feed \<Rightarrow> Feed outcome" where
  "attempts [] fd = Returned fd"
| "attempts (env # envs) fd =
     (case processFeed env fd of
        Panicked msg st \<Rightarrow> Panicked msg (feed st)
      | Returned st \<Rightarrow> attempts envs (feed st))"

section \<open>Notions used to state the properties\<close>

text \<open>
  The embed that lines 198 to 235 build for the item \<open>news\<close> whose description parsed
  to \<open>doc\<close>, with the feed \<open>fd\<close> as it stands when the hooks loop runs.
\<close>

definition payload :: "Env \<Rightarrow> Feed \<Rightarrow> Item \<Rightarrow> Node \<Rightarrow> Embed" where
  "payload env fd news doc =
     newEmbed fd news (sanitized env (ItemDescription news))
       (cap_of (sanitized env (ItemDescription news))) (first_image doc)"

text \<open>
  \<open>advanced t u\<close>: the watermark \<open>u\<close> is \<open>t\<close> left alone, or a value assigned under the
  guard \<open>t.Unix() < u.Unix()\<close>.
\<close>

definition advanced :: "Time \<Rightarrow> Time \<Rightarrow> bool" where
  "advanced t u = (t = u \<or> Unix t < Unix u)"

text \<open>
  \<open>sent_by env fd news p doc ev\<close>: the event \<open>ev\<close> is a send attempt for the item
  \<open>news\<close>, published at \<open>p\<close>, to one of the hooks of \<open>fd\<close>, made when \<open>LastPublished\<close>
  is already \<open>p\<close>. (A predicate of the proofs, not of the program.)
\<close>

definition sent_by :: "Env \<Rightarrow> Feed \<Rightarrow> Item \<Rightarrow> Time \<Rightarrow> Node \<Rightarrow> event \<Rightarrow> bool" where
  "sent_by env fd news p doc ev =
     (\<exists>h msg0 r. h \<in> set (Hooks fd) \<and> NewMessage env h True = Inr msg0 \<and>
        ev = SendAttempt (fd\<lparr>LastPublished := p\<rparr>)
               (AddEmbed msg0 (payload env (fd\<lparr>LastPublished := p\<rparr>) news doc)) r)"

text \<open>
  The order of effects without the results: which message each send attempt carried,
  and how long each pause was.
\<close>

datatype outline = Attempt Message | Pause nat

fun outline_of :: "event \<Rightarrow> outline" where
  "outline_of (SendAttempt f m r) = Attempt m"
| "outline_of (Sleep n) = Pause n"

fun is_attempt :: "outline \<Rightarrow> bool" where
  "is_attempt (Attempt m) = True"
| "is_attempt (Pause n) = False"

fun is_send :: "event \<Rightarrow> bool" where
  "is_send (SendAttempt f m r) = True"
| "is_send (Sleep n) = False"

definition send_attempts :: "event list \<Rightarrow> event list" where
  "send_attempts tr = filter is_send tr"

text \<open>
  The entries that are new for a feed: those whose publish timestamp is, in Unix
  seconds, strictly greater than the stored \<open>LastPublished\<close>.
\<close>

definition published_unix :: "Item \<Rightarrow> int" where
  "published_unix news = (case PublishedParsed news of None \<Rightarrow> 0 | Some p \<Rightarrow> Unix p)"

definition newer :: "Feed \<Rightarrow> Item \<Rightarrow> bool" where
  "newer fd news =
     (case PublishedParsed news of None \<Rightarrow> False | Some p \<Rightarrow> Unix (LastPublished fd) < Unix p)"

definition new_entries :: "Feed \<Rightarrow> Item list \<Rightarrow> Item list" where
  "new_entries fd items = filter (newer fd) items"

text \<open>
  The message for one entry and one hook, for an entry whose description parses and a
  hook whose URL parses, and the send attempts and pauses for one entry, hook by hook.
\<close>

definition message :: "Env \<Rightarrow> Feed \<Rightarrow> Item \<Rightarrow> string \<Rightarrow> Message" where
  "message env fd news hookURL =
     AddEmbed (projr (NewMessage env hookURL True))
       (payload env fd news (projr (NewDocumentFromReader env (ItemDescription news))))"

definition deliveries :: "Env \<Rightarrow> Feed \<Rightarrow> Item \<Rightarrow> outline list" where
  "deliveries env fd news =
     concat (map (\<lambda>hookURL. [Attempt (message env fd news hookURL), Pause 100]) (Hooks fd))"

text \<open>\<open>gofeed\<close>'s \<open>Less\<close>, on items that have a publish timestamp.\<close>

definition earlier :: "Item \<Rightarrow> Item \<Rightarrow> bool" where
  "earlier a b = Before (the (PublishedParsed a)) (the (PublishedParsed b))"

text \<open>
  A hexadecimal number as \<open>strconv.ParseInt\<close> reads it in base 16: an optional sign,
  then one or more of the digits \<open>0-9\<close>, \<open>a-f\<close>, \<open>A-F\<close>.
\<close>

definition is_hex_digit :: "char \<Rightarrow> bool" where
  "is_hex_digit c =
     (let b = (of_char c :: int) in
      (48 \<le> b \<and> b \<le> 57) \<or> (97 \<le> b \<and> b \<le> 102) \<or> (65 \<le> b \<and> b \<le> 70))"

definition hex_number :: "string \<Rightarrow> bool" where
  "hex_number s =
     (let ds = (if s \<noteq> [] \<and> (hd s = CHR ''+'' \<or> hd s = CHR ''-'') then tl s else s)
      in ds \<noteq> [] \<and> list_all is_hex_digit ds)"

text \<open>The embeds that the send attempts of a run carried, in order.\<close>

fun embeds_of :: "event \<Rightarrow> Embed list" where
  "embeds_of (SendAttempt f m r) = (case Embeds m of None \<Rightarrow> [] | Some es \<Rightarrow> es)"
| "embeds_of (Sleep n) = []"

definition sent_embeds :: "event list \<Rightarrow> Embed list" where
  "sent_embeds tr = concat (map embeds_of tr)"

text \<open>The default thumbnail of lines 214 to 218.\<close>

definition branding :: EmbedThumbnail where
  "branding =
     EmbedThumbnail ''https://static.mmo-champion.com/images/tranquilizing/logo.png'' [] 90 157"

text \<open>
  \<open>paced tr\<close>: the effects are send attempts, each one followed at once by a sleep of
  100 milliseconds.
\<close>

fun paced :: "event list \<Rightarrow> bool" where
  "paced [] = True"
| "paced (SendAttempt f m r # Sleep n # tr) = (n = 100 \<and> paced tr)"
| "paced tr = False"





section \<open>Worlds for the examples\<close>

text \<open>
  A plain tag stripper that stands for the strict policy in the examples: it drops
  every tag, and what stands inside a \<open>script\<close> element. (The library does more, such
  as escaping; the properties below hold for any \<open>Sanitize\<close>.)
\<close>

datatype strip_mode = Copy | Tag string | Skip | SkipTag string

fun strip_tags :: "strip_mode \<Rightarrow> string \<Rightarrow> string" where
  "strip_tags mode [] = []"
| "strip_tags Copy (c # cs) =
     (if c = CHR ''<'' then strip_tags (Tag []) cs else c # strip_tags Copy cs)"
| "strip_tags (Tag t) (c # cs) =
     (if c = CHR ''>'' then (if t = ''script'' then strip_tags Skip cs else strip_tags Copy cs)
      else strip_tags (Tag (t @ [c])) cs)"
| "strip_tags Skip (c # cs) =
     (if c = CHR ''<'' then strip_tags (SkipTag []) cs else strip_tags Skip cs)"
| "strip_tags (SkipTag t) (c # cs) =
     (if c = CHR ''>'' then (if t = ''/script'' then strip_tags Copy cs else strip_tags Skip cs)
      else strip_tags (SkipTag (t @ [c])) cs)"

text \<open>An insertion sort with \<open>earlier\<close> as \<open>Less\<close>, as \<open>sort.Sort\<close> does on short slices.\<close>

fun insert_item :: "Item \<Rightarrow> Item list \<Rightarrow> Item list" where
  "insert_item x [] = [x]"
| "insert_item x (y # ys) = (if earlier x y then x # y # ys else y # insert_item x ys)"

definition insertion_sort :: "Item list \<Rightarrow> Item list" where
  "insertion_sort items = foldl (\<lambda>sorted x. insert_item x sorted) [] items"

text \<open>
  A feed with two hooks and a document of four entries, newest first: the first has an
  image of its own and one in its description, the second an image of its own and an
  empty description, the third a description of 501 bytes, and the fourth is older than
  the stored \<open>LastPublished\<close>. The first post fails.
\<close>

definition demo_A :: Item where
  "demo_A = \<lparr>ItemTitle = ''A'', ItemDescription = ''<p>Hi</p><img src=a.png>'',
     ItemLink = ''https://example.org/a'', Published = ''Thu, 01 Jan 1970 00:06:40 GMT'',
     PublishedParsed = Some (Time 400 0),
     ItemImage = Some (gofeed_Image ''https://example.org/a-entry.png'' [])\<rparr>"

definition demo_B :: Item where
  "demo_B = \<lparr>ItemTitle = ''B'', ItemDescription = [],
     ItemLink = ''https://example.org/b'', Published = ''1970-01-01T00:05:00.5Z'',
     PublishedParsed = Some (Time 300 500000000),
     ItemImage = Some (gofeed_Image ''https://example.org/b-entry.png'' [])\<rparr>"

definition demo_C :: Item where
  "demo_C = \<lparr>ItemTitle = ''C'', ItemDescription = replicate 501 (CHR ''a''),
     ItemLink = ''https://example.org/c'', Published = ''Thu, 01 Jan 1970 00:03:20 GMT'',
     PublishedParsed = Some (Time 200 0), ItemImage = None\<rparr>"

definition demo_D :: Item where
  "demo_D = \<lparr>ItemTitle = ''D'', ItemDescription = ''old'',
     ItemLink = ''https://example.org/d'', Published = ''Thu, 01 Jan 1970 00:01:40 GMT'',
     PublishedParsed = Some (Time 100 0), ItemImage = None\<rparr>"

definition demo_doc :: RssFeed where
  "demo_doc = \<lparr>UpdatedParsed = Some (Time 400 0), Items = [demo_A, demo_B, demo_C, demo_D]\<rparr>"

definition demo_A_html :: Node where
  "demo_A_html =
     Element ''html'' []
       [Element ''head'' [] [],
        Element ''body'' []
          [Element ''p'' [] [Text ''Hi''], Element ''img'' [(''src'', ''a.png'')] []]]"

definition text_html :: "string \<Rightarrow> Node" where
  "text_html s = Element ''html'' [] [Element ''head'' [] [], Element ''body'' [] [Text s]]"

definition demo_world :: Env where
  "demo_world =
     \<lparr>ParseURLWithContext =
        (\<lambda>u. if u = ''https://example.org/feed.xml'' then Inr demo_doc else Inl ''no such host''),
      sort_Sort = insertion_sort,
      NewDocumentFromReader =
        (\<lambda>s. if s = ''<p>Hi</p><img src=a.png>'' then Inr demo_A_html else Inr (text_html s)),
      Sanitize = strip_tags Copy,
      url_Parse = Inr,
      Post = (\<lambda>k m. if k = 0 then Some ''connection refused'' else None),
      Now = Time 1000 0\<rparr>"

definition demo_feed :: Feed where
  "demo_feed =
     \<lparr>Hooks = [''https://discord.example/1'', ''https://discord.example/2''],
      Color = ''#1abc9c'',
      LastPublished = Time 150 0,
      LastRun = Time 900 0,
      LastUpdated = Time 350 0,
      Periode = 60000000000,
      URL = ''https://example.org/feed.xml''\<rparr>"

text \<open>The same feed when the document's timestamp is the one already stored.\<close>

definition quiet_feed :: Feed where
  "quiet_feed = demo_feed\<lparr>LastUpdated := Time 400 0\<rparr>"

text \<open>A world in which the fetch runs into its deadline.\<close>

definition down_world :: Env where
  "down_world = demo_world\<lparr>ParseURLWithContext := (\<lambda>u. Inl ''context deadline exceeded'')\<rparr>"

text \<open>A document with two entries published in the same second, for a feed with one hook.\<close>

definition tie_1 :: Item where
  "tie_1 = \<lparr>ItemTitle = ''first'', ItemDescription = ''one'',
     ItemLink = ''https://example.org/1'', Published = ''Thu, 01 Jan 1970 00:05:00 GMT'',
     PublishedParsed = Some (Time 300 0), ItemImage = None\<rparr>"

definition tie_2 :: Item where
  "tie_2 = \<lparr>ItemTitle = ''second'', ItemDescription = ''two'',
     ItemLink = ''https://example.org/2'', Published = ''Thu, 01 Jan 1970 00:05:00 GMT'',
     PublishedParsed = Some (Time 300 0), ItemImage = None\<rparr>"

definition tie_doc :: RssFeed where
  "tie_doc = \<lparr>UpdatedParsed = Some (Time 400 0), Items = [tie_1, tie_2]\<rparr>"

definition tie_world :: Env where
  "tie_world = demo_world\<lparr>ParseURLWithContext := (\<lambda>u. Inr tie_doc)\<rparr>"

definition tie_feed :: Feed where
  "tie_feed = demo_feed\<lparr>Hooks := [''https://discord.example/1'']\<rparr>"

text \<open>A world in which no description parses: the same feed and document, and no send.\<close>

definition deaf_world :: Env where
  "deaf_world = demo_world\<lparr>NewDocumentFromReader := (\<lambda>s. Inl ''unexpected EOF'')\<rparr>"

text \<open>
  The send attempt of the demo run for an entry published at \<open>p\<close> whose description
  parsed to \<open>doc\<close>, to one hook, as effect number \<open>k\<close>; and the effects of the whole run.
\<close>

definition demo_send :: "Item \<Rightarrow> Time \<Rightarrow> Node \<Rightarrow> string \<Rightarrow> nat \<Rightarrow> event" where
  "demo_send news p doc hookURL k =
     SendAttempt (demo_feed\<lparr>LastPublished := p\<rparr>)
       (AddEmbed \<lparr>url = hookURL, Content = [], Username = [], AvatarURL = [], TTS = False,
                  Embeds = None, Mentions = None\<rparr>
          (payload demo_world demo_feed news doc))
       (Send demo_world k
          (AddEmbed \<lparr>url = hookURL, Content = [], Username = [], AvatarURL = [], TTS = False,
                     Embeds = None, Mentions = None\<rparr>
             (payload demo_world demo_feed news doc)))"

definition demo_trace :: "event list" where
  "demo_trace =
     [demo_send demo_C (Time 200 0) (text_html (replicate 501 (CHR ''a''))) ''https://discord.example/1'' 0,
      Sleep 100,
      demo_send demo_C (Time 200 0) (text_html (replicate 501 (CHR ''a''))) ''https://discord.example/2'' 2,
      Sleep 100,
      demo_send demo_B (Time 300 500000000) (text_html []) ''https://discord.example/1'' 4,
      Sleep 100,
      demo_send demo_B (Time 300 500000000) (text_html []) ''https://discord.example/2'' 6,
      Sleep 100,
      demo_send demo_A (Time 400 0) demo_A_html ''https://discord.example/1'' 8,
      Sleep 100,
      demo_send demo_A (Time 400 0) demo_A_html ''https://discord.example/2'' 10,
      Sleep 100]"

section \<open>The two loops\<close>

lemma advanced_refl: "advanced t t" by (simp add: advanced_def)
lemma advanced_trans: "advanced t u \<Longrightarrow> advanced u v \<Longrightarrow> advanced t v"
  by (auto simp: advanced_def)
lemma advanced_Unix: "advanced t u \<Longrightarrow> Unix t \<le> Unix u" by (auto simp: advanced_def)
lemma advanced_Before: "advanced t u \<Longrightarrow> \<not> Before u t" by (auto simp: advanced_def Before_def)

lemma hooks_loop_feed:
  "feed (state_of (hooks_loop env news desc cap img hooks st)) = feed st"
  by (induction hooks arbitrary: st) (auto simp: Let_def split: sum.splits)

lemma hooks_loop_sent:
  "ev \<in> set (trace (state_of (hooks_loop env news desc cap img hooks st))) \<Longrightarrow>
   ev \<in> set (trace st) \<or> ev = Sleep 100 \<or>
   (\<exists>h msg0 r. h \<in> set hooks \<and> NewMessage env h True = Inr msg0 \<and>
      ev = SendAttempt (feed st) (AddEmbed msg0 (newEmbed (feed st) news desc cap img)) r)"
proof (induction hooks arbitrary: st)
  case Nil
  then show ?case by simp
next
  case (Cons h hooks)
  show ?case
  proof (cases "NewMessage env h True")
    case (Inl err)
    with Cons.prems show ?thesis by simp
  next
    case (Inr msg0)
    define st1 where "st1 = st\<lparr>trace := trace st @
      [SendAttempt (feed st) (AddEmbed msg0 (newEmbed (feed st) news desc cap img))
         (Send env (length (trace st)) (AddEmbed msg0 (newEmbed (feed st) news desc cap img))),
       Sleep 100]\<rparr>"
    have eq: "hooks_loop env news desc cap img (h # hooks) st
      = hooks_loop env news desc cap img hooks st1"
      using Inr by (simp add: st1_def Let_def)
    have f1: "feed st1 = feed st" by (simp add: st1_def)
    from Cons.prems have "ev \<in> set (trace (state_of (hooks_loop env news desc cap img hooks st1)))"
      unfolding eq .
    from Cons.IH [OF this] show ?thesis
    proof (elim disjE exE conjE)
      assume "ev \<in> set (trace st1)"
      then consider "ev \<in> set (trace st)" | "ev = Sleep 100"
        | "ev = SendAttempt (feed st) (AddEmbed msg0 (newEmbed (feed st) news desc cap img))
         (Send env (length (trace st)) (AddEmbed msg0 (newEmbed (feed st) news desc cap img)))"
        by (auto simp: st1_def)
      then show ?thesis
      proof cases
        case 3
        with Inr show ?thesis by auto
      qed auto
    next
      assume "ev = Sleep 100" then show ?thesis by simp
    next
      fix h' msg' r
      assume "h' \<in> set hooks" "NewMessage env h' True = Inr msg'"
        "ev = SendAttempt (feed st1) (AddEmbed msg' (newEmbed (feed st1) news desc cap img)) r"
      then show ?thesis unfolding f1 by auto
    qed
  qed
qed


lemma items_loop_Cons_cases [consumes 0, case_names nil old unparsed panic sent]:
  obtains
    (nil) "PublishedParsed news = None"
      "items_loop env (news # rest) st = Panicked nil_dereference st"
  | (old) p where "PublishedParsed news = Some p" "\<not> Unix (LastPublished (feed st)) < Unix p"
      "items_loop env (news # rest) st = items_loop env rest st"
  | (unparsed) p err where "PublishedParsed news = Some p"
      "Unix (LastPublished (feed st)) < Unix p"
      "NewDocumentFromReader env (ItemDescription news) = Inl err"
      "items_loop env (news # rest) st
         = items_loop env rest (st\<lparr>feed := (feed st)\<lparr>LastPublished := p\<rparr>\<rparr>)"
  | (panic) p doc msg st2 where "PublishedParsed news = Some p"
      "Unix (LastPublished (feed st)) < Unix p"
      "NewDocumentFromReader env (ItemDescription news) = Inr doc"
      "feed st2 = (feed st)\<lparr>LastPublished := p\<rparr>"
      "\<And>ev. ev \<in> set (trace st2) \<Longrightarrow>
         ev \<in> set (trace st) \<or> ev = Sleep 100 \<or> sent_by env (feed st) news p doc ev"
      "items_loop env (news # rest) st = Panicked msg st2"
  | (sent) p doc st2 where "PublishedParsed news = Some p"
      "Unix (LastPublished (feed st)) < Unix p"
      "NewDocumentFromReader env (ItemDescription news) = Inr doc"
      "feed st2 = (feed st)\<lparr>LastPublished := p\<rparr>"
      "\<And>ev. ev \<in> set (trace st2) \<Longrightarrow>
         ev \<in> set (trace st) \<or> ev = Sleep 100 \<or> sent_by env (feed st) news p doc ev"
      "hooks_loop env news (sanitized env (ItemDescription news))
         (cap_of (sanitized env (ItemDescription news))) (first_image doc) (Hooks (feed st))
         (st\<lparr>feed := (feed st)\<lparr>LastPublished := p\<rparr>\<rparr>) = Returned st2"
      "items_loop env (news # rest) st = items_loop env rest st2"
proof (cases "PublishedParsed news")
  case None
  then show ?thesis using nil by simp
next
  case (Some p)
  show ?thesis
  proof (cases "Unix (LastPublished (feed st)) < Unix p")
    case False
    with Some show ?thesis using old by simp
  next
    case True
    show ?thesis
    proof (cases "NewDocumentFromReader env (ItemDescription news)")
      case (Inl err)
      with Some True show ?thesis using unparsed by simp
    next
      case (Inr doc)
      define st1 where "st1 = st\<lparr>feed := (feed st)\<lparr>LastPublished := p\<rparr>\<rparr>"
      define r where "r = hooks_loop env news (sanitized env (ItemDescription news))
         (cap_of (sanitized env (ItemDescription news))) (first_image doc) (Hooks (feed st)) st1"
      have fr: "feed (state_of r) = (feed st)\<lparr>LastPublished := p\<rparr>"
        unfolding r_def by (simp add: hooks_loop_feed st1_def)
      have tr: "ev \<in> set (trace st) \<or> ev = Sleep 100 \<or> sent_by env (feed st) news p doc ev"
        if "ev \<in> set (trace (state_of r))" for ev
        using hooks_loop_sent [OF that [unfolded r_def]]
        by (auto simp: sent_by_def payload_def st1_def)
      show ?thesis
      proof (cases r)
        case (Returned st2)
        have "items_loop env (news # rest) st = items_loop env rest st2"
          using Some True Inr Returned by (simp add: Let_def r_def st1_def)
        moreover have "feed st2 = (feed st)\<lparr>LastPublished := p\<rparr>" using fr Returned by simp
        moreover have "\<And>ev. ev \<in> set (trace st2) \<Longrightarrow>
           ev \<in> set (trace st) \<or> ev = Sleep 100 \<or> sent_by env (feed st) news p doc ev"
          using tr Returned by simp
        ultimately show ?thesis
          using sent [of p doc st2] Some True Inr Returned by (simp add: r_def st1_def)
      next
        case (Panicked msg st2)
        have "items_loop env (news # rest) st = Panicked msg st2"
          using Some True Inr Panicked by (simp add: Let_def r_def st1_def)
        moreover have "feed st2 = (feed st)\<lparr>LastPublished := p\<rparr>" using fr Panicked by simp
        moreover have "\<And>ev. ev \<in> set (trace st2) \<Longrightarrow>
           ev \<in> set (trace st) \<or> ev = Sleep 100 \<or> sent_by env (feed st) news p doc ev"
          using tr Panicked by simp
        ultimately show ?thesis
          using panic [of p doc st2 msg] Some True Inr by simp
      qed
    qed
  qed
qed

lemma items_loop_feed:
  "\<exists>p. feed (state_of (items_loop env items st)) = (feed st)\<lparr>LastPublished := p\<rparr>
       \<and> advanced (LastPublished (feed st)) p"
proof (induction items arbitrary: st)
  case Nil
  show ?case by (rule exI [of _ "LastPublished (feed st)"]) (simp add: advanced_refl)
next
  case (Cons news rest)
  have here: "\<exists>p. feed st = (feed st)\<lparr>LastPublished := p\<rparr> \<and> advanced (LastPublished (feed st)) p"
    by (rule exI [of _ "LastPublished (feed st)"]) (simp add: advanced_refl)
  have step: "\<exists>q. feed (state_of (items_loop env rest s)) = (feed st)\<lparr>LastPublished := q\<rparr>
        \<and> advanced (LastPublished (feed st)) q"
    if "feed s = (feed st)\<lparr>LastPublished := p\<rparr>" "Unix (LastPublished (feed st)) < Unix p" for s p
  proof -
    from Cons.IH [of s] obtain q where
      q: "feed (state_of (items_loop env rest s)) = (feed s)\<lparr>LastPublished := q\<rparr>"
      "advanced (LastPublished (feed s)) q" by blast
    from that(2) have "advanced (LastPublished (feed st)) p" by (simp add: advanced_def)
    moreover from q(2) that(1) have "advanced p q" by simp
    ultimately have "advanced (LastPublished (feed st)) q" by (rule advanced_trans)
    moreover from q(1) that(1) have
      "feed (state_of (items_loop env rest s)) = (feed st)\<lparr>LastPublished := q\<rparr>" by simp
    ultimately show ?thesis by blast
  qed
  show ?case
  proof (cases rule: items_loop_Cons_cases [of news env rest st])
    case nil
    then show ?thesis using here by simp
  next
    case (old p)
    then show ?thesis using Cons.IH [of st] by simp
  next
    case (unparsed p err)
    show ?thesis unfolding unparsed(4) by (rule step [of _ p]) (simp_all add: unparsed(2))
  next
    case (panic p doc msg st2)
    from panic(2) have "advanced (LastPublished (feed st)) p" by (simp add: advanced_def)
    with panic(4) show ?thesis unfolding panic(6) by auto
  next
    case (sent p doc st2)
    show ?thesis unfolding sent(7) using sent(4) sent(2) by (rule step)
  qed
qed

lemma items_loop_sent:
  "ev \<in> set (trace (state_of (items_loop env items st))) \<Longrightarrow>
   ev \<in> set (trace st) \<or> ev = Sleep 100 \<or>
   (\<exists>news p doc. news \<in> set items \<and> PublishedParsed news = Some p \<and>
      Unix (LastPublished (feed st)) < Unix p \<and>
      NewDocumentFromReader env (ItemDescription news) = Inr doc \<and>
      sent_by env (feed st) news p doc ev)"
  (is "_ \<Longrightarrow> ?Q items st")
proof (induction items arbitrary: st)
  case Nil
  then show ?case by simp
next
  case (Cons news rest)
  have weaken: "?Q (news # rest) st" if "?Q rest st"
    using that by (elim disjE exE conjE) auto
  have step: "?Q (news # rest) st"
    if s: "feed s = (feed st)\<lparr>LastPublished := p\<rparr>" "Unix (LastPublished (feed st)) < Unix p"
        "ev \<in> set (trace s) \<Longrightarrow> ?Q (news # rest) st"
        "ev \<in> set (trace (state_of (items_loop env rest s)))" for s p
  proof -
    from Cons.IH [OF s(4)] show ?thesis
    proof (elim disjE exE conjE)
      assume "ev \<in> set (trace s)" then show ?thesis by (rule s(3))
    next
      assume "ev = Sleep 100" then show ?thesis by simp
    next
      fix n q doc
      assume a: "n \<in> set rest" "PublishedParsed n = Some q" "Unix (LastPublished (feed s)) < Unix q"
        "NewDocumentFromReader env (ItemDescription n) = Inr doc"
        "sent_by env (feed s) n q doc ev"
      from a(3) s(1,2) have "Unix (LastPublished (feed st)) < Unix q" by simp
      moreover from a(5) s(1) have "sent_by env (feed st) n q doc ev"
        by (simp add: sent_by_def)
      ultimately show ?thesis using a(1,2,4) by auto
    qed
  qed
  have mine: "?Q (news # rest) st"
    if "ev \<in> set (trace st) \<or> ev = Sleep 100 \<or> sent_by env (feed st) news p doc ev"
      "PublishedParsed news = Some p" "Unix (LastPublished (feed st)) < Unix p"
      "NewDocumentFromReader env (ItemDescription news) = Inr doc" for p doc
    using that by auto
  show ?case
  proof (cases rule: items_loop_Cons_cases [of news env rest st])
    case nil
    with Cons.prems show ?thesis by simp
  next
    case (old p)
    with Cons.prems have "ev \<in> set (trace (state_of (items_loop env rest st)))" by simp
    from Cons.IH [OF this] show ?thesis by (rule weaken)
  next
    case (unparsed p err)
    show ?thesis
    proof (rule step [of "st\<lparr>feed := (feed st)\<lparr>LastPublished := p\<rparr>\<rparr>" p])
      show "ev \<in> set (trace (state_of (items_loop env rest (st\<lparr>feed := (feed st)\<lparr>LastPublished := p\<rparr>\<rparr>))))"
        using Cons.prems unfolding unparsed(4) .
    qed (simp_all add: unparsed(2))
  next
    case (panic p doc msg st2)
    from Cons.prems have "ev \<in> set (trace st2)" unfolding panic(6) by simp
    from panic(5) [OF this] panic(1,2,3) show ?thesis by (rule mine)
  next
    case (sent p doc st2)
    show ?thesis
    proof (rule step [of st2 p])
      show "ev \<in> set (trace (state_of (items_loop env rest st2)))"
        using Cons.prems unfolding sent(7) .
    next
      assume "ev \<in> set (trace st2)"
      from sent(5) [OF this] sent(1,2,3) show "?Q (news # rest) st" by (rule mine)
    qed (rule sent(4), rule sent(2))
  qed
qed

section \<open>One run, and a sequence of runs\<close>

lemma processFeed_cases [consumes 0, case_names failed sort_panic no_timestamp no_update panic finished]:
  obtains
    (failed) err where "ParseURLWithContext env (URL fd) = Inl err"
      "processFeed env fd = Returned \<lparr>feed = fd, trace = []\<rparr>"
  | (sort_panic) rssFeed where "ParseURLWithContext env (URL fd) = Inr rssFeed"
      "sort_panics (Items rssFeed)"
      "processFeed env fd = Panicked nil_dereference \<lparr>feed = fd, trace = []\<rparr>"
  | (no_timestamp) rssFeed where "ParseURLWithContext env (URL fd) = Inr rssFeed"
      "\<not> sort_panics (Items rssFeed)" "UpdatedParsed rssFeed = None"
      "processFeed env fd = Panicked nil_dereference \<lparr>feed = fd, trace = []\<rparr>"
  | (no_update) rssFeed updated where "ParseURLWithContext env (URL fd) = Inr rssFeed"
      "\<not> sort_panics (Items rssFeed)" "UpdatedParsed rssFeed = Some updated"
      "\<not> Unix (LastUpdated fd) < Unix updated"
      "processFeed env fd = Returned \<lparr>feed = fd\<lparr>LastRun := Now env\<rparr>, trace = []\<rparr>"
  | (panic) rssFeed updated msg st1 where "ParseURLWithContext env (URL fd) = Inr rssFeed"
      "\<not> sort_panics (Items rssFeed)" "UpdatedParsed rssFeed = Some updated"
      "Unix (LastUpdated fd) < Unix updated"
      "items_loop env (sort_Sort env (Items rssFeed)) \<lparr>feed = fd, trace = []\<rparr> = Panicked msg st1"
      "processFeed env fd = Panicked msg st1"
  | (finished) rssFeed updated st1 where "ParseURLWithContext env (URL fd) = Inr rssFeed"
      "\<not> sort_panics (Items rssFeed)" "UpdatedParsed rssFeed = Some updated"
      "Unix (LastUpdated fd) < Unix updated"
      "items_loop env (sort_Sort env (Items rssFeed)) \<lparr>feed = fd, trace = []\<rparr> = Returned st1"
      "processFeed env fd
         = Returned (st1\<lparr>feed := (feed st1)\<lparr>LastUpdated := updated, LastRun := Now env\<rparr>\<rparr>)"
proof (cases "ParseURLWithContext env (URL fd)")
  case (Inl err)
  then show ?thesis using failed by (simp add: processFeed_def)
next
  case (Inr rssFeed)
  show ?thesis
  proof (cases "sort_panics (Items rssFeed)")
    case True
    with Inr show ?thesis using sort_panic by (simp add: processFeed_def)
  next
    case False
    show ?thesis
    proof (cases "UpdatedParsed rssFeed")
      case None
      with Inr False show ?thesis using no_timestamp by (simp add: processFeed_def)
    next
      case (Some updated)
      show ?thesis
      proof (cases "Unix (LastUpdated fd) < Unix updated")
        case no: False
        with Inr False Some show ?thesis using no_update by (simp add: processFeed_def)
      next
        case yes: True
        show ?thesis
        proof (cases "items_loop env (sort_Sort env (Items rssFeed)) \<lparr>feed = fd, trace = []\<rparr>")
          case (Returned st1)
          with Inr False Some yes show ?thesis using finished [of rssFeed updated st1]
            by (simp add: processFeed_def)
        next
          case (Panicked msg st1)
          with Inr False Some yes show ?thesis using panic [of rssFeed updated msg st1]
            by (simp add: processFeed_def)
        qed
      qed
    qed
  qed
qed

lemma processFeed_advanced:
  "advanced (LastPublished fd) (LastPublished (feed (state_of (processFeed env fd))))
   \<and> advanced (LastUpdated fd) (LastUpdated (feed (state_of (processFeed env fd))))"
proof (cases rule: processFeed_cases [of env fd])
  case (panic rssFeed updated msg st1)
  from items_loop_feed [of env "sort_Sort env (Items rssFeed)" "\<lparr>feed = fd, trace = []\<rparr>"]
  show ?thesis unfolding panic(5,6) by (auto simp: advanced_refl)
next
  case (finished rssFeed updated st1)
  from items_loop_feed [of env "sort_Sort env (Items rssFeed)" "\<lparr>feed = fd, trace = []\<rparr>"]
  show ?thesis unfolding finished(5,6) using finished(4) by (auto simp: advanced_def)
qed (simp_all add: advanced_refl)

lemma attempts_append:
  "attempts (envs @ envs') fd =
     (case attempts envs fd of
        Returned fd' \<Rightarrow> attempts envs' fd'
      | Panicked msg fd' \<Rightarrow> Panicked msg fd')"
  by (induction envs arbitrary: fd) (auto split: outcome.splits)

lemma attempts_advanced:
  "advanced (LastPublished fd) (LastPublished (state_of (attempts envs fd)))
   \<and> advanced (LastUpdated fd) (LastUpdated (state_of (attempts envs fd)))"
proof (induction envs arbitrary: fd)
  case Nil
  show ?case by (simp add: advanced_refl)
next
  case (Cons env envs)
  note one = processFeed_advanced [of fd env]
  show ?case
  proof (cases "processFeed env fd")
    case (Returned st)
    with one Cons.IH [of "feed st"] show ?thesis by (auto intro: advanced_trans)
  next
    case (Panicked msg st)
    with one show ?thesis by simp
  qed
qed

lemma processFeed_sent:
  assumes "SendAttempt f m r \<in> set (trace (state_of (processFeed env fd)))"
  shows "\<exists>rssFeed news p doc. ParseURLWithContext env (URL fd) = Inr rssFeed \<and>
      news \<in> set (sort_Sort env (Items rssFeed)) \<and> PublishedParsed news = Some p \<and>
      Unix (LastPublished fd) < Unix p \<and>
      NewDocumentFromReader env (ItemDescription news) = Inr doc \<and>
      sent_by env fd news p doc (SendAttempt f m r)"
proof (cases rule: processFeed_cases [of env fd])
  case (panic rssFeed updated msg st1)
  from assms have "SendAttempt f m r \<in> set (trace (state_of
     (items_loop env (sort_Sort env (Items rssFeed)) \<lparr>feed = fd, trace = []\<rparr>)))"
    unfolding panic(5,6) by simp
  from items_loop_sent [OF this] panic(1) show ?thesis by auto
next
  case (finished rssFeed updated st1)
  from assms have "SendAttempt f m r \<in> set (trace (state_of
     (items_loop env (sort_Sort env (Items rssFeed)) \<lparr>feed = fd, trace = []\<rparr>)))"
    unfolding finished(5,6) by simp
  from items_loop_sent [OF this] finished(1) show ?thesis by auto
qed (use assms in simp_all)

text \<open>
  Claim C1. For every feed and every sequence of synchronization attempts, the
  watermarks \<open>LastPublished\<close> and \<open>LastUpdated\<close> never move backwards: after any further
  attempts \<open>envs'\<close> each is, in Unix seconds, at least what it was after the attempts
  \<open>envs\<close>, and as an instant it is not before it. (A panic ends the sequence in the
  state it had reached, and is covered.)
\<close>

theorem watermarks_monotone:
  "Unix (LastPublished (state_of (attempts envs fd)))
     \<le> Unix (LastPublished (state_of (attempts (envs @ envs') fd)))
   \<and> \<not> Before (LastPublished (state_of (attempts (envs @ envs') fd)))
          (LastPublished (state_of (attempts envs fd)))
   \<and> Unix (LastUpdated (state_of (attempts envs fd)))
     \<le> Unix (LastUpdated (state_of (attempts (envs @ envs') fd)))
   \<and> \<not> Before (LastUpdated (state_of (attempts (envs @ envs') fd)))
          (LastUpdated (state_of (attempts envs fd)))"
proof -
  have "advanced (LastPublished (state_of (attempts envs fd)))
          (LastPublished (state_of (attempts (envs @ envs') fd)))
      \<and> advanced (LastUpdated (state_of (attempts envs fd)))
          (LastUpdated (state_of (attempts (envs @ envs') fd)))"
  proof (cases "attempts envs fd")
    case (Returned fd')
    with attempts_advanced [of fd' envs'] show ?thesis by (simp add: attempts_append)
  next
    case (Panicked msg fd')
    then show ?thesis by (simp add: attempts_append advanced_refl)
  qed
  then show ?thesis by (simp add: advanced_Unix advanced_Before)
qed

section \<open>The order and number of send attempts\<close>

lemma newEmbed_LastPublished [simp]:
  "newEmbed (fd\<lparr>LastPublished := p\<rparr>) news desc cap img = newEmbed fd news desc cap img"
  by (simp add: newEmbed_def)

lemma payload_LastPublished [simp]:
  "payload env (fd\<lparr>LastPublished := p\<rparr>) news doc = payload env fd news doc"
  by (simp add: payload_def)

lemma message_LastPublished [simp]:
  "message env (fd\<lparr>LastPublished := p\<rparr>) news h = message env fd news h"
  by (simp add: message_def)

lemma deliveries_LastPublished [simp]:
  "deliveries env (fd\<lparr>LastPublished := p\<rparr>) = deliveries env fd"
  by (rule ext) (simp add: deliveries_def)

lemma hooks_loop_outline:
  assumes "list_all (\<lambda>h. \<not> isl (url_Parse env h)) hooks"
  shows "\<exists>st'. hooks_loop env news desc cap img hooks st = Returned st' \<and> feed st' = feed st \<and>
     map outline_of (trace st') = map outline_of (trace st) @
       concat (map (\<lambda>h. [Attempt (AddEmbed (projr (NewMessage env h True))
                                     (newEmbed (feed st) news desc cap img)), Pause 100]) hooks)"
  using assms
proof (induction hooks arbitrary: st)
  case Nil
  show ?case by simp
next
  case (Cons h hooks)
  from Cons.prems obtain u where u: "url_Parse env h = Inr u"
    by (cases "url_Parse env h") auto
  define msg0 where "msg0 = \<lparr>url = u, Content = [], Username = [], AvatarURL = [], TTS = False,
                       Embeds = None, Mentions = None\<rparr>"
  have nm: "NewMessage env h True = Inr msg0" by (simp add: NewMessage_def u msg0_def)
  define m where "m = AddEmbed msg0 (newEmbed (feed st) news desc cap img)"
  define st1 where "st1 = st\<lparr>trace := trace st @
      [SendAttempt (feed st) m (Send env (length (trace st)) m), Sleep 100]\<rparr>"
  have eq: "hooks_loop env news desc cap img (h # hooks) st
      = hooks_loop env news desc cap img hooks st1"
    using nm by (simp add: st1_def m_def Let_def)
  from Cons.prems have "list_all (\<lambda>h. \<not> isl (url_Parse env h)) hooks" by simp
  from Cons.IH [OF this, of st1] obtain st' where
    st': "hooks_loop env news desc cap img hooks st1 = Returned st'" "feed st' = feed st1"
      "map outline_of (trace st') = map outline_of (trace st1) @
       concat (map (\<lambda>h. [Attempt (AddEmbed (projr (NewMessage env h True))
                                     (newEmbed (feed st1) news desc cap img)), Pause 100]) hooks)"
    by blast
  have "feed st1 = feed st" by (simp add: st1_def)
  with st' show ?case unfolding eq by (simp add: st1_def m_def nm)
qed

lemma new_entries_Cons:
  "new_entries fd (news # rest) =
     (if newer fd news then news # new_entries fd rest else new_entries fd rest)"
  by (simp add: new_entries_def)

lemma items_loop_outline:
  assumes "None \<notin> set (map PublishedParsed items)"
    and "list_all (\<lambda>news. \<not> isl (NewDocumentFromReader env (ItemDescription news)))
           (new_entries (feed st) items)"
    and "list_all (\<lambda>h. \<not> isl (url_Parse env h)) (Hooks (feed st))"
    and "sorted_wrt (\<lambda>a b. published_unix a \<le> published_unix b) items"
    and "distinct (map published_unix (new_entries (feed st) items))"
  shows "\<exists>st'. items_loop env items st = Returned st' \<and>
     map outline_of (trace st') = map outline_of (trace st) @
       concat (map (deliveries env (feed st)) (new_entries (feed st) items))"
  using assms
proof (induction items arbitrary: st)
  case Nil
  show ?case by (simp add: new_entries_def)
next
  case (Cons news rest)
  from Cons.prems(1) obtain p where p: "PublishedParsed news = Some p"
    by (cases "PublishedParsed news") auto
  have rest1: "None \<notin> set (map PublishedParsed rest)" using Cons.prems(1) by simp
  have rest4: "sorted_wrt (\<lambda>a b. published_unix a \<le> published_unix b) rest"
    using Cons.prems(4) by simp
  show ?case
  proof (cases "Unix (LastPublished (feed st)) < Unix p")
    case False
    then have nn: "\<not> newer (feed st) news" by (simp add: newer_def p)
    have eq: "items_loop env (news # rest) st = items_loop env rest st"
      using p False by simp
    from Cons.prems(5) nn have d: "distinct (map published_unix (new_entries (feed st) rest))"
      by (simp add: new_entries_Cons)
    from Cons.prems(2) nn have
      "list_all (\<lambda>news. \<not> isl (NewDocumentFromReader env (ItemDescription news)))
           (new_entries (feed st) rest)" by (simp add: new_entries_Cons)
    from Cons.IH [OF rest1 this Cons.prems(3) rest4 d] show ?thesis
      unfolding eq using nn by (simp add: new_entries_Cons)
  next
    case True
    then have nw: "newer (feed st) news" by (simp add: newer_def p)
    from Cons.prems(2) nw obtain doc where
      doc: "NewDocumentFromReader env (ItemDescription news) = Inr doc"
      by (cases "NewDocumentFromReader env (ItemDescription news)") (auto simp: new_entries_Cons)
    define st1 where "st1 = st\<lparr>feed := (feed st)\<lparr>LastPublished := p\<rparr>\<rparr>"
    from hooks_loop_outline [OF Cons.prems(3), of news "sanitized env (ItemDescription news)"
        "cap_of (sanitized env (ItemDescription news))" "first_image doc" st1]
    obtain st2 where st2: "hooks_loop env news (sanitized env (ItemDescription news))
         (cap_of (sanitized env (ItemDescription news))) (first_image doc) (Hooks (feed st)) st1
         = Returned st2" "feed st2 = feed st1"
      "map outline_of (trace st2) = map outline_of (trace st1) @
       concat (map (\<lambda>h. [Attempt (AddEmbed (projr (NewMessage env h True))
          (newEmbed (feed st1) news (sanitized env (ItemDescription news))
         (cap_of (sanitized env (ItemDescription news))) (first_image doc))), Pause 100]) (Hooks (feed st)))"
      by blast
    have eq: "items_loop env (news # rest) st = items_loop env rest st2"
      using p True doc st2(1) by (simp add: st1_def Let_def)
    have f2: "feed st2 = (feed st)\<lparr>LastPublished := p\<rparr>" using st2(2) by (simp add: st1_def)
    have same: "new_entries (feed st2) rest = new_entries (feed st) rest"
      unfolding new_entries_def
    proof (rule filter_cong [OF refl])
      fix n assume n: "n \<in> set rest"
      then have "PublishedParsed n \<in> set (map PublishedParsed rest)" by simp
      with rest1 have "PublishedParsed n \<noteq> None" by metis
      then obtain q where q: "PublishedParsed n = Some q" by auto
      from Cons.prems(4) n have le: "Unix p \<le> Unix q"
        by (auto simp: published_unix_def p q)
      show "newer (feed st2) n = newer (feed st) n"
      proof (cases "Unix (LastPublished (feed st)) < Unix q")
        case False
        with True le show ?thesis by (simp add: newer_def q f2)
      next
        case yes: True
        then have "n \<in> set (new_entries (feed st) rest)"
          using n by (simp add: new_entries_def newer_def q)
        moreover from Cons.prems(5) nw have
          "published_unix news \<notin> published_unix ` set (new_entries (feed st) rest)"
          by (simp add: new_entries_Cons)
        ultimately have "published_unix n \<noteq> published_unix news"
          by (metis imageI)
        with le have "Unix p < Unix q" by (simp add: published_unix_def p q)
        with yes show ?thesis by (simp add: newer_def q f2)
      qed
    qed
    have h2: "list_all (\<lambda>h. \<not> isl (url_Parse env h)) (Hooks (feed st2))"
      using Cons.prems(3) by (simp add: f2)
    have d2: "distinct (map published_unix (new_entries (feed st2) rest))"
      using Cons.prems(5) nw by (simp add: same new_entries_Cons)
    have p2: "list_all (\<lambda>news. \<not> isl (NewDocumentFromReader env (ItemDescription news)))
           (new_entries (feed st2) rest)"
      using Cons.prems(2) nw by (simp add: same new_entries_Cons)
    from Cons.IH [OF rest1 p2 h2 rest4 d2] obtain st' where
      st': "items_loop env rest st2 = Returned st'"
      "map outline_of (trace st') = map outline_of (trace st2) @
         concat (map (deliveries env (feed st2)) (new_entries (feed st2) rest))" by blast
    have mine: "concat (map (\<lambda>h. [Attempt (AddEmbed (projr (NewMessage env h True))
          (newEmbed (feed st1) news (sanitized env (ItemDescription news))
         (cap_of (sanitized env (ItemDescription news))) (first_image doc))), Pause 100]) (Hooks (feed st)))
       = deliveries env (feed st) news"
      by (simp add: deliveries_def message_def payload_def doc st1_def)
    have "map outline_of (trace st') = map outline_of (trace st) @
       concat (map (deliveries env (feed st)) (new_entries (feed st) (news # rest)))"
      unfolding st'(2) st2(3) mine same using nw
      by (simp add: new_entries_Cons f2 st1_def)
    with st'(1) show ?thesis unfolding eq by blast
  qed
qed

lemma count_outline:
  "length (filter is_send tr) = length (filter is_attempt (map outline_of tr))"
proof (induction tr)
  case Nil show ?case by simp
next
  case (Cons ev tr) then show ?case by (cases ev) simp_all
qed

lemma count_hooks:
  "length (filter is_attempt (concat (map (\<lambda>h. [Attempt (g h), Pause 100]) hs))) = length hs"
  by (induction hs) simp_all

lemma count_one_entry:
  "length (filter is_attempt (deliveries env fd news)) = length (Hooks fd)"
  unfolding deliveries_def by (rule count_hooks)

lemma count_entries:
  "length (filter is_attempt (concat (map (deliveries env fd) ns))) = length ns * length (Hooks fd)"
  by (induction ns) (simp_all add: count_one_entry)

lemma new_entries_perm:
  assumes "mset xs = mset ys"
  shows "length (new_entries fd xs) = length (new_entries fd ys)"
    and "distinct (map published_unix (new_entries fd xs))
         = distinct (map published_unix (new_entries fd ys))"
proof -
  from assms have m: "mset (new_entries fd xs) = mset (new_entries fd ys)"
    by (simp add: new_entries_def)
  then show "length (new_entries fd xs) = length (new_entries fd ys)"
    by (rule mset_eq_length)
  from m have "mset (map published_unix (new_entries fd xs))
      = mset (map published_unix (new_entries fd ys))" by simp
  then show "distinct (map published_unix (new_entries fd xs))
         = distinct (map published_unix (new_entries fd ys))"
    by (rule mset_eq_imp_distinct_iff)
qed

section \<open>\<open>Hex2int\<close>\<close>

lemma digit_of_hex: "digit_of c = Some d \<Longrightarrow> d < 16 \<Longrightarrow> is_hex_digit c"
  by (auto simp: digit_of_def is_hex_digit_def Let_def split: if_splits)

lemma ParseUint_loop_hex: "ParseUint_loop n s = Inr v \<Longrightarrow> list_all is_hex_digit s"
proof (induction s arbitrary: n)
  case Nil
  then show ?case by simp
next
  case (Cons c cs)
  from Cons.prems obtain d where d: "digit_of c = Some d" "d < 16"
    and rest: "ParseUint_loop (((n * 16) mod 2 ^ 64 + d) mod 2 ^ 64) cs = Inr v"
    by (auto simp: Let_def split: option.splits if_splits)
  from d have "is_hex_digit c" by (rule digit_of_hex)
  moreover from rest have "list_all is_hex_digit cs" by (rule Cons.IH)
  ultimately show ?case by simp
qed

lemma ParseInt_hex: "ParseInt s = Inr v \<Longrightarrow> hex_number s"
  unfolding ParseInt_def ParseUint_def hex_number_def Let_def
  by (auto split: if_splits sum.splits NumError.splits dest: ParseUint_loop_hex)

lemma Hex2int_invalid:
  "\<not> hex_number (TrimPrefix (ReplaceAll s ''0x'' []) ''#'') \<Longrightarrow> Hex2int s = 0"
  unfolding Hex2int_def Let_def
  by (auto split: sum.splits dest: ParseInt_hex)

lemmas hex_eval = Hex2int_def TrimPrefix_def ParseInt_def ParseUint_def digit_of_def Let_def

lemma Hex2int_1abc9c:
  "Hex2int ''#1abc9c'' = 1752220" "Hex2int ''1abc9c'' = 1752220" "Hex2int ''0x1abc9c'' = 1752220"
  by (simp_all add: hex_eval)

text \<open>
  Claim C7, against the decimal value it names: the three spellings of \<open>1abc9c\<close> do
  not decode to 1816476.
\<close>

theorem Hex2int_decimal_counterexample:
  "Hex2int ''#1abc9c'' \<noteq> 1816476 \<and> Hex2int ''1abc9c'' \<noteq> 1816476
   \<and> Hex2int ''0x1abc9c'' \<noteq> 1816476"
  by (simp add: Hex2int_1abc9c)

text \<open>
  Claim C7, as amended. \<open>Hex2int\<close> maps \<open>#1abc9c\<close>, \<open>1abc9c\<close> and \<open>0x1abc9c\<close> to one and
  the same integer, \<open>0x1ABC9C\<close>, which is 1752220 in decimal; \<open>zzzzzz\<close> decodes to 0; and
  every input that, once every \<open>0x\<close> is removed and a leading \<open>#\<close> trimmed, is not a
  hexadecimal number (an optional sign and one or more hexadecimal digits) decodes
  to 0.
\<close>

theorem Hex2int_decodes:
  "Hex2int ''#1abc9c'' = 0x1ABC9C \<and> Hex2int ''1abc9c'' = 0x1ABC9C
   \<and> Hex2int ''0x1abc9c'' = 0x1ABC9C \<and> Hex2int ''#1abc9c'' = 1752220
   \<and> Hex2int ''zzzzzz'' = 0
   \<and> (\<not> hex_number (TrimPrefix (ReplaceAll s ''0x'' []) ''#'') \<longrightarrow> Hex2int s = 0)"
proof -
  have "Hex2int ''zzzzzz'' = 0" by (simp add: hex_eval)
  then show ?thesis by (simp add: Hex2int_1abc9c Hex2int_invalid)
qed

theorem Hex2int_decodes_witness:
  "\<not> hex_number (TrimPrefix (ReplaceAll ''#12g4'' ''0x'' []) ''#'') \<and> Hex2int ''#12g4'' = 0"
proof -
  have h: "\<not> hex_number (TrimPrefix (ReplaceAll ''#12g4'' ''0x'' []) ''#'')"
    by (simp add: hex_number_def TrimPrefix_def is_hex_digit_def)
  with Hex2int_decodes [of "''#12g4''"] show ?thesis by blast
qed

section \<open>The demo run\<close>

lemma demo_items [simp]:
  "PublishedParsed demo_A = Some (Time 400 0)" "ItemDescription demo_A = ''<p>Hi</p><img src=a.png>''"
  "PublishedParsed demo_B = Some (Time 300 500000000)" "ItemDescription demo_B = []"
  "PublishedParsed demo_C = Some (Time 200 0)" "ItemDescription demo_C = replicate 501 (CHR ''a'')"
  "PublishedParsed demo_D = Some (Time 100 0)" "ItemDescription demo_D = ''old''"
  by (simp_all add: demo_A_def demo_B_def demo_C_def demo_D_def)

lemma demo_world_sel [simp]:
  "ParseURLWithContext demo_world ''https://example.org/feed.xml'' = Inr demo_doc"
  "sort_Sort demo_world = insertion_sort"
  "NewDocumentFromReader demo_world s =
     (if s = ''<p>Hi</p><img src=a.png>'' then Inr demo_A_html else Inr (text_html s))"
  "Sanitize demo_world = strip_tags Copy"
  "url_Parse demo_world h = Inr h"
  "Now demo_world = Time 1000 0"
  by (simp_all add: demo_world_def)

lemma demo_feed_sel [simp]:
  "Hooks demo_feed = [''https://discord.example/1'', ''https://discord.example/2'']"
  "LastPublished demo_feed = Time 150 0" "LastUpdated demo_feed = Time 350 0"
  "LastRun demo_feed = Time 900 0" "URL demo_feed = ''https://example.org/feed.xml''"
  by (simp_all add: demo_feed_def)

lemma demo_sorted: "insertion_sort [demo_A, demo_B, demo_C, demo_D] = [demo_D, demo_C, demo_B, demo_A]"
  by (simp add: insertion_sort_def earlier_def Before_def)

lemma long_not_html: "replicate 501 (CHR ''a'') \<noteq> ''<p>Hi</p><img src=a.png>''"
proof
  assume "replicate 501 (CHR ''a'') = ''<p>Hi</p><img src=a.png>''"
  then have "length (replicate 501 (CHR ''a'')) = length ''<p>Hi</p><img src=a.png>''" by (rule arg_cong)
  then show False by simp
qed

lemma demo_run:
  "processFeed demo_world demo_feed =
     Returned \<lparr>feed = demo_feed\<lparr>LastPublished := Time 400 0, LastUpdated := Time 400 0,
                                 LastRun := Time 1000 0\<rparr>,
               trace = demo_trace\<rparr>"
  by (simp add: processFeed_def sort_panics_def demo_sorted demo_doc_def long_not_html
      NewMessage_def Let_def demo_trace_def demo_send_def payload_def
      numeral_2_eq_2 [symmetric])


text \<open>The watermarks over the demo run and a failed fetch after it.\<close>

theorem watermarks_monotone_witness:
  "attempts [demo_world] demo_feed
     = Returned (demo_feed\<lparr>LastPublished := Time 400 0, LastUpdated := Time 400 0,
                           LastRun := Time 1000 0\<rparr>)
   \<and> Unix (LastPublished demo_feed) = 150
   \<and> Unix (LastPublished demo_feed)
       \<le> Unix (LastPublished (state_of (attempts [demo_world] demo_feed)))
   \<and> Unix (LastPublished (state_of (attempts [demo_world] demo_feed)))
       \<le> Unix (LastPublished (state_of (attempts [demo_world, down_world] demo_feed)))
   \<and> Unix (LastUpdated demo_feed)
       \<le> Unix (LastUpdated (state_of (attempts [demo_world] demo_feed)))
   \<and> Unix (LastUpdated (state_of (attempts [demo_world] demo_feed)))
       \<le> Unix (LastUpdated (state_of (attempts [demo_world, down_world] demo_feed)))"
proof -
  have run: "attempts [demo_world] demo_feed
     = Returned (demo_feed\<lparr>LastPublished := Time 400 0, LastUpdated := Time 400 0,
                           LastRun := Time 1000 0\<rparr>)"
    by (simp add: demo_run)
  from watermarks_monotone [of "[]" demo_feed "[demo_world]"]
    watermarks_monotone [of "[demo_world]" demo_feed "[down_world]"] run
  show ?thesis by simp
qed


section \<open>What a run sends\<close>

lemma NewMessage_fresh:
  assumes "NewMessage env h wait = Inr msg0"
  shows "Embeds msg0 = None" "Content msg0 = []"
  using assms by (auto simp: NewMessage_def split: sum.splits)

lemma sent_by_fields:
  assumes "sent_by env fd news p doc (SendAttempt f m r)"
  shows "f = fd\<lparr>LastPublished := p\<rparr>" "Embeds m = Some [payload env fd news doc]"
    "Content m = []"
proof -
  from assms obtain h msg0 where nm: "NewMessage env h True = Inr msg0"
    and f: "f = fd\<lparr>LastPublished := p\<rparr>"
    and m: "m = AddEmbed msg0 (payload env (fd\<lparr>LastPublished := p\<rparr>) news doc)"
    by (auto simp: sent_by_def)
  from nm have "Embeds msg0 = None" "Content msg0 = []" by (rule NewMessage_fresh)+
  then show "Embeds m = Some [payload env fd news doc]" "Content m = []"
    by (simp_all add: m AddEmbed_def)
  show "f = fd\<lparr>LastPublished := p\<rparr>" by (rule f)
qed

lemma processFeed_sent_embed:
  assumes "e \<in> set (sent_embeds (trace (state_of (processFeed env fd))))"
  shows "\<exists>rssFeed news p doc. ParseURLWithContext env (URL fd) = Inr rssFeed \<and>
      news \<in> set (sort_Sort env (Items rssFeed)) \<and> PublishedParsed news = Some p \<and>
      Unix (LastPublished fd) < Unix p \<and>
      NewDocumentFromReader env (ItemDescription news) = Inr doc \<and>
      e = payload env fd news doc"
proof -
  from assms obtain ev where ev: "ev \<in> set (trace (state_of (processFeed env fd)))"
    "e \<in> set (embeds_of ev)" by (auto simp: sent_embeds_def)
  from ev(2) obtain f m r where sa: "ev = SendAttempt f m r" by (cases ev) auto
  from processFeed_sent [OF ev(1) [unfolded sa]] obtain rssFeed news p doc where
    *: "ParseURLWithContext env (URL fd) = Inr rssFeed"
      "news \<in> set (sort_Sort env (Items rssFeed))" "PublishedParsed news = Some p"
      "Unix (LastPublished fd) < Unix p"
      "NewDocumentFromReader env (ItemDescription news) = Inr doc"
      "sent_by env fd news p doc (SendAttempt f m r)" by blast
  from sent_by_fields(2) [OF *(6)] ev(2) have "e = payload env fd news doc"
    by (simp add: sa)
  with * show ?thesis by blast
qed

section \<open>Runs that send nothing\<close>

text \<open>
  Claim C2. When the fetched document's feed-level timestamp is not newer (in Unix
  seconds) than the stored \<open>LastUpdated\<close>, the run makes no send attempt and has no
  other effect, and no field of the feed but \<open>LastRun\<close> changes: \<open>LastPublished\<close> and
  \<open>LastUpdated\<close> stay. Unless the sort panics on an entry without a publish timestamp
  (before anything has changed), the run returns with \<open>LastRun\<close> set to the clock.
\<close>

theorem no_update_frame:
  assumes "ParseURLWithContext env (URL fd) = Inr rssFeed"
    and "UpdatedParsed rssFeed = Some updated"
    and "\<not> Unix (LastUpdated fd) < Unix updated"
  shows "send_attempts (trace (state_of (processFeed env fd))) = []
    \<and> trace (state_of (processFeed env fd)) = []
    \<and> (feed (state_of (processFeed env fd)))\<lparr>LastRun := LastRun fd\<rparr> = fd
    \<and> LastPublished (feed (state_of (processFeed env fd))) = LastPublished fd
    \<and> LastUpdated (feed (state_of (processFeed env fd))) = LastUpdated fd
    \<and> (\<not> sort_panics (Items rssFeed) \<longrightarrow>
         processFeed env fd = Returned \<lparr>feed = fd\<lparr>LastRun := Now env\<rparr>, trace = []\<rparr>)"
  using assms by (cases rule: processFeed_cases [of env fd]) (simp_all add: send_attempts_def)

theorem no_update_frame_witness:
  "ParseURLWithContext demo_world (URL quiet_feed) = Inr demo_doc
   \<and> UpdatedParsed demo_doc = Some (Time 400 0)
   \<and> \<not> Unix (LastUpdated quiet_feed) < Unix (Time 400 0)
   \<and> \<not> sort_panics (Items demo_doc)
   \<and> processFeed demo_world quiet_feed
       = Returned \<lparr>feed = quiet_feed\<lparr>LastRun := Time 1000 0\<rparr>, trace = []\<rparr>"
proof -
  have h: "ParseURLWithContext demo_world (URL quiet_feed) = Inr demo_doc"
    "UpdatedParsed demo_doc = Some (Time 400 0)"
    "\<not> Unix (LastUpdated quiet_feed) < Unix (Time 400 0)"
    "\<not> sort_panics (Items demo_doc)"
    by (simp_all add: quiet_feed_def demo_doc_def sort_panics_def)
  from no_update_frame [OF h(1,2,3)] h show ?thesis by simp
qed

text \<open>
  Claim C5. When the fetch and parse step fails, the run returns with the feed exactly
  as it was: \<open>LastPublished\<close>, \<open>LastUpdated\<close> and \<open>LastRun\<close> are unchanged, and there is
  no send attempt.
\<close>

theorem fetch_failure_frame:
  assumes "ParseURLWithContext env (URL fd) = Inl err"
  shows "processFeed env fd = Returned \<lparr>feed = fd, trace = []\<rparr>
    \<and> LastPublished (feed (state_of (processFeed env fd))) = LastPublished fd
    \<and> LastUpdated (feed (state_of (processFeed env fd))) = LastUpdated fd
    \<and> LastRun (feed (state_of (processFeed env fd))) = LastRun fd
    \<and> send_attempts (trace (state_of (processFeed env fd))) = []"
  using assms by (simp add: processFeed_def send_attempts_def)

theorem fetch_failure_frame_witness:
  "ParseURLWithContext down_world (URL demo_feed) = Inl ''context deadline exceeded''
   \<and> processFeed down_world demo_feed = Returned \<lparr>feed = demo_feed, trace = []\<rparr>
   \<and> LastRun (feed (state_of (processFeed down_world demo_feed))) = Time 900 0"
proof -
  have h: "ParseURLWithContext down_world (URL demo_feed) = Inl ''context deadline exceeded''"
    by (simp add: down_world_def)
  from fetch_failure_frame [OF h] h show ?thesis by simp
qed

text \<open>
  Claim C6, as stated, fails: when the fetch runs into its deadline, \<open>LastRun\<close> is not
  set to the time of the attempt.
\<close>

theorem lastRun_on_failure_counterexample:
  "ParseURLWithContext down_world (URL demo_feed) = Inl ''context deadline exceeded''
   \<and> Now down_world = Time 1000 0
   \<and> LastRun (feed (state_of (processFeed down_world demo_feed))) = Time 900 0
   \<and> LastRun (feed (state_of (processFeed down_world demo_feed))) \<noteq> Now down_world"
  by (simp add: down_world_def processFeed_def)

text \<open>
  Claim C6, as amended. For every synchronization attempt whose fetch and parse step
  succeeds and that returns, \<open>LastRun\<close> is the clock reading taken at the end of the
  attempt; when the fetch fails, \<open>LastRun\<close> is left as it was.
\<close>

theorem lastRun_after_fetch:
  "(ParseURLWithContext env (URL fd) = Inr rssFeed \<and> returned (processFeed env fd)
      \<longrightarrow> LastRun (feed (state_of (processFeed env fd))) = Now env)
   \<and> (ParseURLWithContext env (URL fd) = Inl err
      \<longrightarrow> LastRun (feed (state_of (processFeed env fd))) = LastRun fd)"
proof (intro conjI impI)
  assume "ParseURLWithContext env (URL fd) = Inr rssFeed \<and> returned (processFeed env fd)"
  then show "LastRun (feed (state_of (processFeed env fd))) = Now env"
    by (cases rule: processFeed_cases [of env fd]) simp_all
next
  assume "ParseURLWithContext env (URL fd) = Inl err"
  then show "LastRun (feed (state_of (processFeed env fd))) = LastRun fd"
    by (simp add: processFeed_def)
qed

theorem lastRun_after_fetch_witness:
  "ParseURLWithContext demo_world (URL demo_feed) = Inr demo_doc
   \<and> returned (processFeed demo_world demo_feed)
   \<and> LastRun (feed (state_of (processFeed demo_world demo_feed))) = Now demo_world
   \<and> ParseURLWithContext down_world (URL demo_feed) = Inl ''context deadline exceeded''
   \<and> LastRun (feed (state_of (processFeed down_world demo_feed))) = LastRun demo_feed"
proof -
  have h: "ParseURLWithContext demo_world (URL demo_feed) = Inr demo_doc"
    "returned (processFeed demo_world demo_feed)"
    "ParseURLWithContext down_world (URL demo_feed) = Inl ''context deadline exceeded''"
    by (simp_all add: demo_run down_world_def)
  from lastRun_after_fetch [of demo_world demo_feed demo_doc] h(1,2)
  have "LastRun (feed (state_of (processFeed demo_world demo_feed))) = Now demo_world" by blast
  moreover from lastRun_after_fetch [of down_world demo_feed _ "''context deadline exceeded''"] h(3)
  have "LastRun (feed (state_of (processFeed down_world demo_feed))) = LastRun demo_feed" by blast
  ultimately show ?thesis using h by simp
qed

section \<open>The watermark at the time of a send\<close>

lemma items_loop_sent_final:
  "SendAttempt f m r \<in> set (trace (state_of (items_loop env items st))) \<Longrightarrow>
   SendAttempt f m r \<in> set (trace st) \<or>
   advanced (LastPublished f) (LastPublished (feed (state_of (items_loop env items st))))"
proof (induction items arbitrary: st)
  case Nil
  then show ?case by simp
next
  case (Cons news rest)
  have mine: "LastPublished f = p"
    if "sent_by env (feed st) news p doc (SendAttempt f m r)" for p doc
    using sent_by_fields(1) [OF that] by simp
  show ?case
  proof (cases rule: items_loop_Cons_cases [of news env rest st])
    case nil
    with Cons.prems show ?thesis by simp
  next
    case (old p)
    with Cons.prems Cons.IH [of st] show ?thesis by simp
  next
    case (unparsed p err)
    with Cons.prems Cons.IH [of "st\<lparr>feed := (feed st)\<lparr>LastPublished := p\<rparr>\<rparr>"]
    show ?thesis by simp
  next
    case (panic p doc msg st2)
    from Cons.prems have "SendAttempt f m r \<in> set (trace st2)" unfolding panic(6) by simp
    from panic(5) [OF this] show ?thesis
    proof (elim disjE)
      assume "sent_by env (feed st) news p doc (SendAttempt f m r)"
      then have "LastPublished f = p" by (rule mine)
      then show ?thesis unfolding panic(6) by (simp add: panic(4) advanced_refl)
    qed simp_all
  next
    case (sent p doc st2)
    from Cons.prems have "SendAttempt f m r \<in> set (trace (state_of (items_loop env rest st2)))"
      unfolding sent(7) .
    from Cons.IH [OF this] show ?thesis
    proof (elim disjE)
      assume "SendAttempt f m r \<in> set (trace st2)"
      from sent(5) [OF this] show ?thesis
      proof (elim disjE)
        assume "sent_by env (feed st) news p doc (SendAttempt f m r)"
        then have "LastPublished f = p" by (rule mine)
        moreover from items_loop_feed [of env rest st2] sent(4)
        have "advanced p (LastPublished (feed (state_of (items_loop env rest st2))))" by auto
        ultimately show ?thesis unfolding sent(7) by simp
      qed simp_all
    next
      assume "advanced (LastPublished f) (LastPublished (feed (state_of (items_loop env rest st2))))"
      then show ?thesis unfolding sent(7) by simp
    qed
  qed
qed

lemma processFeed_sent_final:
  assumes "SendAttempt f m r \<in> set (trace (state_of (processFeed env fd)))"
  shows "advanced (LastPublished f) (LastPublished (feed (state_of (processFeed env fd))))"
proof (cases rule: processFeed_cases [of env fd])
  case (panic rssFeed updated msg st1)
  from assms have "SendAttempt f m r \<in> set (trace (state_of
     (items_loop env (sort_Sort env (Items rssFeed)) \<lparr>feed = fd, trace = []\<rparr>)))"
    unfolding panic(5,6) by simp
  from items_loop_sent_final [OF this] show ?thesis unfolding panic(5,6) by simp
next
  case (finished rssFeed updated st1)
  from assms have "SendAttempt f m r \<in> set (trace (state_of
     (items_loop env (sort_Sort env (Items rssFeed)) \<lparr>feed = fd, trace = []\<rparr>)))"
    unfolding finished(5,6) by simp
  from items_loop_sent_final [OF this] show ?thesis unfolding finished(5,6) by simp
qed (use assms in simp_all)


lemma hooks_loop_extends:
  "\<exists>evs. trace (state_of (hooks_loop env news desc cap img hooks st)) = trace st @ evs \<and>
     (\<forall>ev\<in>set evs. ev = Sleep 100 \<or>
        (\<exists>h msg0 r. h \<in> set hooks \<and> NewMessage env h True = Inr msg0 \<and>
           ev = SendAttempt (feed st) (AddEmbed msg0 (newEmbed (feed st) news desc cap img)) r))"
proof (induction hooks arbitrary: st)
  case Nil
  show ?case by simp
next
  case (Cons h hooks)
  show ?case
  proof (cases "NewMessage env h True")
    case (Inl err)
    then show ?thesis by simp
  next
    case (Inr msg0)
    define m where "m = AddEmbed msg0 (newEmbed (feed st) news desc cap img)"
    define st1 where "st1 = st\<lparr>trace := trace st @
      [SendAttempt (feed st) m (Send env (length (trace st)) m), Sleep 100]\<rparr>"
    have eq: "hooks_loop env news desc cap img (h # hooks) st
      = hooks_loop env news desc cap img hooks st1"
      using Inr by (simp add: st1_def m_def Let_def)
    from Cons.IH [of st1] obtain evs where
      evs: "trace (state_of (hooks_loop env news desc cap img hooks st1)) = trace st1 @ evs"
        "\<forall>ev\<in>set evs. ev = Sleep 100 \<or>
        (\<exists>h msg0 r. h \<in> set hooks \<and> NewMessage env h True = Inr msg0 \<and>
           ev = SendAttempt (feed st1) (AddEmbed msg0 (newEmbed (feed st1) news desc cap img)) r)"
      by blast
    have f1: "feed st1 = feed st" by (simp add: st1_def)
    let ?evs = "[SendAttempt (feed st) m (Send env (length (trace st)) m), Sleep 100] @ evs"
    have "trace (state_of (hooks_loop env news desc cap img (h # hooks) st)) = trace st @ ?evs"
      unfolding eq evs(1) by (simp add: st1_def)
    moreover have "\<forall>ev\<in>set ?evs. ev = Sleep 100 \<or>
        (\<exists>h' msg0 r. h' \<in> set (h # hooks) \<and> NewMessage env h' True = Inr msg0 \<and>
           ev = SendAttempt (feed st) (AddEmbed msg0 (newEmbed (feed st) news desc cap img)) r)"
    proof
      fix ev assume "ev \<in> set ?evs"
      then consider "ev = SendAttempt (feed st) m (Send env (length (trace st)) m)"
        | "ev = Sleep 100" | "ev \<in> set evs" by auto
      then show "ev = Sleep 100 \<or>
        (\<exists>h' msg0 r. h' \<in> set (h # hooks) \<and> NewMessage env h' True = Inr msg0 \<and>
           ev = SendAttempt (feed st) (AddEmbed msg0 (newEmbed (feed st) news desc cap img)) r)"
      proof cases
        case 1
        with Inr show ?thesis by (auto simp: m_def)
      next
        case 2
        then show ?thesis by simp
      next
        case 3
        with evs(2) show ?thesis unfolding f1 by fastforce
      qed
    qed
    ultimately show ?thesis by blast
  qed
qed

lemma items_loop_append:
  "items_loop env (xs @ ys) st =
     (case items_loop env xs st of
        Returned s \<Rightarrow> items_loop env ys s
      | Panicked msg s \<Rightarrow> Panicked msg s)"
  by (induction xs arbitrary: st)
     (auto simp: Let_def split: option.splits sum.splits outcome.splits)

lemma items_loop_consumed:
  assumes "items_loop env items st = Returned st'" "news \<in> set items"
  shows "\<not> newer (feed st') news"
  using assms
proof (induction items arbitrary: st)
  case Nil
  then show ?case by simp
next
  case (Cons x rest)
  have later: "\<not> newer (feed st') x"
    if "items_loop env rest s = Returned st'" "PublishedParsed x = Some p"
       "Unix p \<le> Unix (LastPublished (feed s))" for s p
  proof -
    from items_loop_feed [of env rest s] that(1)
    have "advanced (LastPublished (feed s)) (LastPublished (feed st'))" by auto
    then have "Unix (LastPublished (feed s)) \<le> Unix (LastPublished (feed st'))"
      by (rule advanced_Unix)
    with that(3) show ?thesis by (simp add: newer_def that(2))
  qed
  show ?case
  proof (cases rule: items_loop_Cons_cases [of x env rest st])
    case nil
    with Cons.prems show ?thesis by simp
  next
    case (old p)
    from Cons.prems(1) have run: "items_loop env rest st = Returned st'" unfolding old(3) .
    show ?thesis
    proof (cases "news = x")
      case True
      from later [OF run old(1)] old(2) show ?thesis unfolding True by simp
    next
      case False
      with Cons.prems(2) have "news \<in> set rest" by simp
      with run show ?thesis by (rule Cons.IH)
    qed
  next
    case (unparsed p err)
    from Cons.prems(1) have run:
      "items_loop env rest (st\<lparr>feed := (feed st)\<lparr>LastPublished := p\<rparr>\<rparr>) = Returned st'"
      unfolding unparsed(4) .
    show ?thesis
    proof (cases "news = x")
      case True
      from later [OF run unparsed(1)] show ?thesis unfolding True by simp
    next
      case False
      with Cons.prems(2) have "news \<in> set rest" by simp
      with run show ?thesis by (rule Cons.IH)
    qed
  next
    case (panic p doc msg st2)
    with Cons.prems show ?thesis by simp
  next
    case (sent p doc st2)
    from Cons.prems(1) have run: "items_loop env rest st2 = Returned st'" unfolding sent(7) .
    show ?thesis
    proof (cases "news = x")
      case True
      from later [OF run sent(1)] sent(4) show ?thesis unfolding True by simp
    next
      case False
      with Cons.prems(2) have "news \<in> set rest" by simp
      with run show ?thesis by (rule Cons.IH)
    qed
  qed
qed

text \<open>The body of the loop for one selected entry, and its place in the run.\<close>

lemma selected_entry_body:
  assumes "PublishedParsed news = Some p" "Unix (LastPublished (feed s)) < Unix p"
  shows "LastPublished (feed (state_of (items_loop env [news] s))) = p
    \<and> (\<exists>evs. trace (state_of (items_loop env [news] s)) = trace s @ evs
         \<and> (\<forall>ev\<in>set evs. ev = Sleep 100 \<or>
               (\<exists>doc. NewDocumentFromReader env (ItemDescription news) = Inr doc
                  \<and> sent_by env (feed s) news p doc ev)))"
proof (cases "NewDocumentFromReader env (ItemDescription news)")
  case (Inl err)
  with assms show ?thesis by simp
next
  case (Inr doc)
  define s1 where "s1 = s\<lparr>feed := (feed s)\<lparr>LastPublished := p\<rparr>\<rparr>"
  define r where "r = hooks_loop env news (sanitized env (ItemDescription news))
     (cap_of (sanitized env (ItemDescription news))) (first_image doc) (Hooks (feed s)) s1"
  have st: "state_of (items_loop env [news] s) = state_of r"
    using assms Inr by (cases r) (simp_all add: Let_def r_def s1_def)
  have fr: "feed (state_of r) = (feed s)\<lparr>LastPublished := p\<rparr>"
    unfolding r_def by (simp add: hooks_loop_feed s1_def)
  from hooks_loop_extends [of env news "sanitized env (ItemDescription news)"
      "cap_of (sanitized env (ItemDescription news))" "first_image doc" "Hooks (feed s)" s1]
  obtain evs where evs: "trace (state_of r) = trace s1 @ evs"
    "\<forall>ev\<in>set evs. ev = Sleep 100 \<or>
        (\<exists>h msg0 r. h \<in> set (Hooks (feed s)) \<and> NewMessage env h True = Inr msg0 \<and>
           ev = SendAttempt (feed s1) (AddEmbed msg0 (newEmbed (feed s1) news
             (sanitized env (ItemDescription news))
             (cap_of (sanitized env (ItemDescription news))) (first_image doc))) r)"
    unfolding r_def by blast
  have "\<forall>ev\<in>set evs. ev = Sleep 100 \<or>
               (\<exists>doc. NewDocumentFromReader env (ItemDescription news) = Inr doc
                  \<and> sent_by env (feed s) news p doc ev)"
  proof
    fix ev assume "ev \<in> set evs"
    with evs(2) have "ev = Sleep 100 \<or> sent_by env (feed s) news p doc ev"
      by (fastforce simp: sent_by_def payload_def s1_def)
    with Inr show "ev = Sleep 100 \<or>
               (\<exists>doc. NewDocumentFromReader env (ItemDescription news) = Inr doc
                  \<and> sent_by env (feed s) news p doc ev)" by blast
  qed
  moreover have "trace (state_of (items_loop env [news] s)) = trace s @ evs"
    unfolding st evs(1) by (simp add: s1_def)
  moreover have "LastPublished (feed (state_of (items_loop env [news] s))) = p"
    unfolding st fr by simp
  ultimately show ?thesis by blast
qed


lemma single_entry_prefix:
  "\<exists>evs. trace (state_of (items_loop env [news] st)) = trace st @ evs"
proof (cases "PublishedParsed news")
  case None
  then show ?thesis by simp
next
  case (Some p)
  show ?thesis
  proof (cases "Unix (LastPublished (feed st)) < Unix p")
    case True
    from selected_entry_body [OF Some True, of env] show ?thesis by blast
  next
    case False
    with Some show ?thesis by simp
  qed
qed

lemma items_loop_prefix:
  "\<exists>evs. trace (state_of (items_loop env items st)) = trace st @ evs"
proof (induction items arbitrary: st)
  case Nil
  show ?case by simp
next
  case (Cons x rest)
  from single_entry_prefix [of env x st] obtain evs where
    evs: "trace (state_of (items_loop env [x] st)) = trace st @ evs" by blast
  have split: "items_loop env (x # rest) st =
     (case items_loop env [x] st of
        Returned s \<Rightarrow> items_loop env rest s
      | Panicked msg s \<Rightarrow> Panicked msg s)"
    using items_loop_append [of env "[x]" rest st] by simp
  show ?case
  proof (cases "items_loop env [x] st")
    case (Returned s1)
    from Cons.IH [of s1] obtain evs' where
      "trace (state_of (items_loop env rest s1)) = trace s1 @ evs'" by blast
    with evs Returned show ?thesis unfolding split by simp
  next
    case (Panicked msg s1)
    with evs show ?thesis unfolding split by simp
  qed
qed

lemma selected_entry_in_run:
  assumes fetch: "ParseURLWithContext env (URL fd) = Inr feed_doc"
    and sane: "\<not> sort_panics (Items feed_doc)"
    and upd: "UpdatedParsed feed_doc = Some updated" "Unix (LastUpdated fd) < Unix updated"
    and split: "sort_Sort env (Items feed_doc) = pre @ entry # post"
    and reach: "items_loop env pre \<lparr>feed = fd, trace = []\<rparr> = Returned s"
    and sel: "PublishedParsed entry = Some q" "Unix (LastPublished (feed s)) < Unix q"
  shows "LastPublished (feed (state_of (items_loop env (pre @ [entry]) \<lparr>feed = fd, trace = []\<rparr>))) = q
    \<and> (\<exists>evs. trace (state_of (items_loop env (pre @ [entry]) \<lparr>feed = fd, trace = []\<rparr>))
               = trace s @ evs
         \<and> (\<forall>ev\<in>set evs. ev = Sleep 100 \<or>
               (\<exists>g w x html. ev = SendAttempt g w x \<and> LastPublished g = q
                  \<and> NewDocumentFromReader env (ItemDescription entry) = Inr html
                  \<and> Embeds w = Some [payload env fd entry html])))
    \<and> (\<exists>later. trace (state_of (processFeed env fd))
          = trace (state_of (items_loop env (pre @ [entry]) \<lparr>feed = fd, trace = []\<rparr>)) @ later)
    \<and> \<not> newer (feed (state_of (processFeed env fd))) entry"
proof -
  let ?st0 = "\<lparr>feed = fd, trace = []\<rparr>"
  let ?mid = "items_loop env (pre @ [entry]) ?st0"
  have mid: "?mid = items_loop env [entry] s"
    using items_loop_append [of env pre "[entry]" ?st0] reach by simp
  from items_loop_feed [of env pre ?st0] reach obtain p0 where
    fs: "feed s = fd\<lparr>LastPublished := p0\<rparr>" by auto
  from selected_entry_body [OF sel, of env] obtain evs where
    body: "LastPublished (feed (state_of (items_loop env [entry] s))) = q"
      "trace (state_of (items_loop env [entry] s)) = trace s @ evs"
      "\<forall>ev\<in>set evs. ev = Sleep 100 \<or>
               (\<exists>doc. NewDocumentFromReader env (ItemDescription entry) = Inr doc
                  \<and> sent_by env (feed s) entry q doc ev)"
    by blast
  have evs: "\<forall>ev\<in>set evs. ev = Sleep 100 \<or>
               (\<exists>g w x html. ev = SendAttempt g w x \<and> LastPublished g = q
                  \<and> NewDocumentFromReader env (ItemDescription entry) = Inr html
                  \<and> Embeds w = Some [payload env fd entry html])"
  proof
    fix ev assume "ev \<in> set evs"
    with body(3) consider "ev = Sleep 100"
      | doc where "NewDocumentFromReader env (ItemDescription entry) = Inr doc"
          "sent_by env (feed s) entry q doc ev" by blast
    then show "ev = Sleep 100 \<or>
               (\<exists>g w x html. ev = SendAttempt g w x \<and> LastPublished g = q
                  \<and> NewDocumentFromReader env (ItemDescription entry) = Inr html
                  \<and> Embeds w = Some [payload env fd entry html])"
    proof cases
      case 1
      then show ?thesis by simp
    next
      case (2 doc)
      from 2(2) obtain g w x where ev: "ev = SendAttempt g w x" by (auto simp: sent_by_def)
      from sent_by_fields [OF 2(2) [unfolded ev]] have "LastPublished g = q"
        "Embeds w = Some [payload env fd entry doc]" by (simp_all add: fs)
      with ev 2(1) show ?thesis by blast
    qed
  qed
  have whole: "items_loop env (sort_Sort env (Items feed_doc)) ?st0 =
     (case ?mid of Returned s' \<Rightarrow> items_loop env post s' | Panicked msg s' \<Rightarrow> Panicked msg s')"
    using items_loop_append [of env "pre @ [entry]" post ?st0] by (simp add: split)
  define final where "final = state_of (items_loop env (sort_Sort env (Items feed_doc)) ?st0)"
  have fin: "(\<exists>later. trace final = trace (state_of ?mid) @ later)
      \<and> advanced q (LastPublished (feed final))"
  proof (cases ?mid)
    case (Returned s')
    from items_loop_prefix [of env post s'] items_loop_feed [of env post s'] body(1)
    show ?thesis unfolding final_def whole Returned mid [symmetric]
      using Returned by (auto simp: mid)
  next
    case (Panicked msg s')
    with body(1) show ?thesis unfolding final_def whole by (simp add: mid advanced_refl)
  qed
  have run: "trace (state_of (processFeed env fd)) = trace final
      \<and> LastPublished (feed (state_of (processFeed env fd))) = LastPublished (feed final)"
    using fetch sane upd
    by (cases "items_loop env (sort_Sort env (Items feed_doc)) ?st0")
       (simp_all add: processFeed_def final_def)
  from fin run have "\<not> newer (feed (state_of (processFeed env fd))) entry"
    by (auto simp: newer_def sel(1) dest: advanced_Unix)
  with body(1,2) evs fin run show ?thesis unfolding mid by simp
qed

lemma returned_run_consumes:
  assumes "ParseURLWithContext env (URL fd) = Inr feed_doc"
    and "UpdatedParsed feed_doc = Some updated" "Unix (LastUpdated fd) < Unix updated"
    and "returned (processFeed env fd)"
    and "entry \<in> set (sort_Sort env (Items feed_doc))"
  shows "\<not> newer (feed (state_of (processFeed env fd))) entry"
proof (cases rule: processFeed_cases [of env fd])
  case (finished rssFeed u st1)
  with assms(1,5) have "entry \<in> set (sort_Sort env (Items rssFeed))" by simp
  with finished(5) have "\<not> newer (feed st1) entry" by (rule items_loop_consumed)
  then show ?thesis unfolding finished(6) by (simp add: newer_def split: option.splits)
qed (use assms in simp_all)

lemma send_sees_watermark:
  assumes "SendAttempt f m r \<in> set (trace (state_of (processFeed env fd)))"
  shows "\<exists>rssFeed news p doc. ParseURLWithContext env (URL fd) = Inr rssFeed
      \<and> news \<in> set (sort_Sort env (Items rssFeed))
      \<and> PublishedParsed news = Some p \<and> Unix (LastPublished fd) < Unix p
      \<and> Embeds m = Some [payload env fd news doc]
      \<and> Timestamp (payload env fd news doc) = Some p
      \<and> LastPublished f = p \<and> \<not> Unix (LastPublished f) < Unix p
      \<and> \<not> newer (feed (state_of (processFeed env fd))) news"
proof -
  from processFeed_sent [OF assms] obtain rssFeed news p doc where
    *: "ParseURLWithContext env (URL fd) = Inr rssFeed"
      "news \<in> set (sort_Sort env (Items rssFeed))" "PublishedParsed news = Some p"
      "Unix (LastPublished fd) < Unix p"
      "sent_by env fd news p doc (SendAttempt f m r)" by blast
  from sent_by_fields [OF *(5)] have f: "LastPublished f = p"
    "Embeds m = Some [payload env fd news doc]" by simp_all
  moreover have "Timestamp (payload env fd news doc) = Some p"
    by (simp add: payload_def newEmbed_def Let_def *(3) split: option.splits)
  moreover from processFeed_sent_final [OF assms] f(1)
  have "\<not> newer (feed (state_of (processFeed env fd))) news"
    by (auto simp: newer_def *(3) dest: advanced_Unix)
  ultimately show ?thesis using *(1-4) by auto
qed



text \<open>
  Claim C4. For every entry selected for dispatch, the entry's publish timestamp is
  assigned to \<open>LastPublished\<close> before any delivery attempt for it, whether or not an
  attempt follows. Three statements:
  \<^item> Every send attempt of a run is for an entry \<open>news\<close> of the fetched document whose
    publish timestamp \<open>p\<close> is strictly greater, in Unix seconds, than the stored
    \<open>LastPublished\<close>: the message carries the embed built for that entry, stamped \<open>p\<close>,
    and in the state in which \<open>Send\<close> is called \<open>LastPublished\<close> is already \<open>p\<close>, so it
    is not less than the entry's timestamp; when the run ends, however it ends, the
    entry is no longer new for the feed.
  \<^item> When the loop reaches an entry (after the entries \<open>pre\<close>, in the state \<open>s\<close>) and
    selects it (its timestamp \<open>q\<close> is strictly greater than \<open>LastPublished\<close> in \<open>s\<close>),
    then when the loop is done with that entry \<open>LastPublished\<close> is \<open>q\<close>, also when its
    description does not parse, when the feed has no hooks and when a hook URL makes
    \<open>NewMessage\<close> panic; the effects added for that entry are sleeps and send attempts
    made with \<open>LastPublished\<close> equal to \<open>q\<close>; the effects of the whole run continue
    them; and at the end of the run the entry is no longer new.
  \<^item> After a run that got past the update gate and returned, no entry of the document
    is still new for the feed.
\<close>

theorem watermark_set_before_send:
  "(SendAttempt f m r \<in> set (trace (state_of (processFeed env fd))) \<longrightarrow>
      (\<exists>rssFeed news p doc. ParseURLWithContext env (URL fd) = Inr rssFeed
        \<and> news \<in> set (sort_Sort env (Items rssFeed))
        \<and> PublishedParsed news = Some p \<and> Unix (LastPublished fd) < Unix p
        \<and> Embeds m = Some [payload env fd news doc]
        \<and> Timestamp (payload env fd news doc) = Some p
        \<and> LastPublished f = p \<and> \<not> Unix (LastPublished f) < Unix p
        \<and> \<not> newer (feed (state_of (processFeed env fd))) news))
   \<and> (ParseURLWithContext env (URL fd) = Inr feed_doc \<and> \<not> sort_panics (Items feed_doc)
      \<and> UpdatedParsed feed_doc = Some updated \<and> Unix (LastUpdated fd) < Unix updated
      \<and> sort_Sort env (Items feed_doc) = pre @ entry # post
      \<and> items_loop env pre \<lparr>feed = fd, trace = []\<rparr> = Returned s
      \<and> PublishedParsed entry = Some q \<and> Unix (LastPublished (feed s)) < Unix q
      \<longrightarrow>
        LastPublished (feed (state_of (items_loop env (pre @ [entry]) \<lparr>feed = fd, trace = []\<rparr>))) = q
      \<and> (\<exists>evs. trace (state_of (items_loop env (pre @ [entry]) \<lparr>feed = fd, trace = []\<rparr>))
                 = trace s @ evs
           \<and> (\<forall>ev\<in>set evs. ev = Sleep 100 \<or>
                 (\<exists>g w x html. ev = SendAttempt g w x \<and> LastPublished g = q
                    \<and> NewDocumentFromReader env (ItemDescription entry) = Inr html
                    \<and> Embeds w = Some [payload env fd entry html])))
      \<and> (\<exists>later. trace (state_of (processFeed env fd))
            = trace (state_of (items_loop env (pre @ [entry]) \<lparr>feed = fd, trace = []\<rparr>)) @ later)
      \<and> \<not> newer (feed (state_of (processFeed env fd))) entry)
   \<and> (ParseURLWithContext env (URL fd) = Inr feed_doc
      \<and> UpdatedParsed feed_doc = Some updated \<and> Unix (LastUpdated fd) < Unix updated
      \<and> returned (processFeed env fd) \<and> entry \<in> set (sort_Sort env (Items feed_doc))
      \<longrightarrow> \<not> newer (feed (state_of (processFeed env fd))) entry)"
proof (intro conjI impI)
  assume "SendAttempt f m r \<in> set (trace (state_of (processFeed env fd)))"
  then show "\<exists>rssFeed news p doc. ParseURLWithContext env (URL fd) = Inr rssFeed
        \<and> news \<in> set (sort_Sort env (Items rssFeed))
        \<and> PublishedParsed news = Some p \<and> Unix (LastPublished fd) < Unix p
        \<and> Embeds m = Some [payload env fd news doc]
        \<and> Timestamp (payload env fd news doc) = Some p
        \<and> LastPublished f = p \<and> \<not> Unix (LastPublished f) < Unix p
        \<and> \<not> newer (feed (state_of (processFeed env fd))) news"
    by (rule send_sees_watermark)
next
  assume h: "ParseURLWithContext env (URL fd) = Inr feed_doc \<and> \<not> sort_panics (Items feed_doc)
      \<and> UpdatedParsed feed_doc = Some updated \<and> Unix (LastUpdated fd) < Unix updated
      \<and> sort_Sort env (Items feed_doc) = pre @ entry # post
      \<and> items_loop env pre \<lparr>feed = fd, trace = []\<rparr> = Returned s
      \<and> PublishedParsed entry = Some q \<and> Unix (LastPublished (feed s)) < Unix q"
  note r = selected_entry_in_run [of env fd feed_doc updated pre entry post s q]
  from h r show
    "LastPublished (feed (state_of (items_loop env (pre @ [entry]) \<lparr>feed = fd, trace = []\<rparr>))) = q"
    by blast
  from h r show "\<exists>evs. trace (state_of (items_loop env (pre @ [entry]) \<lparr>feed = fd, trace = []\<rparr>))
                 = trace s @ evs
           \<and> (\<forall>ev\<in>set evs. ev = Sleep 100 \<or>
                 (\<exists>g w x html. ev = SendAttempt g w x \<and> LastPublished g = q
                    \<and> NewDocumentFromReader env (ItemDescription entry) = Inr html
                    \<and> Embeds w = Some [payload env fd entry html]))"
    by blast
  from h r show "\<exists>later. trace (state_of (processFeed env fd))
            = trace (state_of (items_loop env (pre @ [entry]) \<lparr>feed = fd, trace = []\<rparr>)) @ later"
    by blast
  from h r show "\<not> newer (feed (state_of (processFeed env fd))) entry" by blast
next
  assume "ParseURLWithContext env (URL fd) = Inr feed_doc
      \<and> UpdatedParsed feed_doc = Some updated \<and> Unix (LastUpdated fd) < Unix updated
      \<and> returned (processFeed env fd) \<and> entry \<in> set (sort_Sort env (Items feed_doc))"
  then show "\<not> newer (feed (state_of (processFeed env fd))) entry"
    using returned_run_consumes [of env fd feed_doc updated entry] by blast
qed

lemma demo_sent:
  "demo_send news p doc h k \<in> set demo_trace \<Longrightarrow>
   demo_send news p doc h k \<in> set (trace (state_of (processFeed demo_world demo_feed)))"
  by (simp add: demo_run)

lemma deaf_sel [simp]:
  "ParseURLWithContext deaf_world ''https://example.org/feed.xml'' = Inr demo_doc"
  "sort_Sort deaf_world = insertion_sort"
  "NewDocumentFromReader deaf_world d = Inl ''unexpected EOF''"
  "Now deaf_world = Time 1000 0"
  by (simp_all add: deaf_world_def demo_world_def)

lemma deaf_run:
  "processFeed deaf_world demo_feed =
     Returned \<lparr>feed = demo_feed\<lparr>LastPublished := Time 400 0, LastUpdated := Time 400 0,
                                 LastRun := Time 1000 0\<rparr>,
               trace = []\<rparr>"
  by (simp add: processFeed_def sort_panics_def demo_sorted demo_doc_def)

theorem watermark_set_before_send_witness:
  "SendAttempt (demo_feed\<lparr>LastPublished := Time 300 500000000\<rparr>)
     (AddEmbed \<lparr>url = ''https://discord.example/2'', Content = [], Username = [],
                AvatarURL = [], TTS = False, Embeds = None, Mentions = None\<rparr>
        (payload demo_world demo_feed demo_B (text_html [])))
     (Send demo_world 6
        (AddEmbed \<lparr>url = ''https://discord.example/2'', Content = [], Username = [],
                   AvatarURL = [], TTS = False, Embeds = None, Mentions = None\<rparr>
           (payload demo_world demo_feed demo_B (text_html []))))
     \<in> set (trace (state_of (processFeed demo_world demo_feed)))
   \<and> (\<exists>rssFeed news p doc.
        ParseURLWithContext demo_world (URL demo_feed) = Inr rssFeed
      \<and> news \<in> set (sort_Sort demo_world (Items rssFeed))
      \<and> PublishedParsed news = Some p \<and> Unix (LastPublished demo_feed) < Unix p
      \<and> Embeds (AddEmbed \<lparr>url = ''https://discord.example/2'', Content = [], Username = [],
                AvatarURL = [], TTS = False, Embeds = None, Mentions = None\<rparr>
                   (payload demo_world demo_feed demo_B (text_html [])))
          = Some [payload demo_world demo_feed news doc]
      \<and> Timestamp (payload demo_world demo_feed news doc) = Some p
      \<and> LastPublished (demo_feed\<lparr>LastPublished := Time 300 500000000\<rparr>) = p
      \<and> \<not> Unix (LastPublished (demo_feed\<lparr>LastPublished := Time 300 500000000\<rparr>)) < Unix p
      \<and> \<not> newer (feed (state_of (processFeed demo_world demo_feed))) news)
   \<and> ParseURLWithContext deaf_world (URL demo_feed) = Inr demo_doc
   \<and> \<not> sort_panics (Items demo_doc)
   \<and> UpdatedParsed demo_doc = Some (Time 400 0)
   \<and> Unix (LastUpdated demo_feed) < Unix (Time 400 0)
   \<and> sort_Sort deaf_world (Items demo_doc) = [demo_D, demo_C, demo_B] @ demo_A # []
   \<and> items_loop deaf_world [demo_D, demo_C, demo_B] \<lparr>feed = demo_feed, trace = []\<rparr>
       = Returned \<lparr>feed = demo_feed\<lparr>LastPublished := Time 300 500000000\<rparr>, trace = []\<rparr>
   \<and> PublishedParsed demo_A = Some (Time 400 0)
   \<and> Unix (LastPublished (demo_feed\<lparr>LastPublished := Time 300 500000000\<rparr>)) < Unix (Time 400 0)
   \<and> NewDocumentFromReader deaf_world (ItemDescription demo_A) = Inl ''unexpected EOF''
   \<and> LastPublished (feed (state_of (items_loop deaf_world ([demo_D, demo_C, demo_B] @ [demo_A])
         \<lparr>feed = demo_feed, trace = []\<rparr>))) = Time 400 0
   \<and> send_attempts (trace (state_of (processFeed deaf_world demo_feed))) = []
   \<and> \<not> newer (feed (state_of (processFeed deaf_world demo_feed))) demo_A
   \<and> returned (processFeed deaf_world demo_feed)
   \<and> demo_C \<in> set (sort_Sort deaf_world (Items demo_doc))
   \<and> \<not> newer (feed (state_of (processFeed deaf_world demo_feed))) demo_C"
proof -
  have "demo_send demo_B (Time 300 500000000) (text_html []) ''https://discord.example/2'' 6
      \<in> set (trace (state_of (processFeed demo_world demo_feed)))"
    by (rule demo_sent) (simp add: demo_trace_def)
  then have mem: "SendAttempt (demo_feed\<lparr>LastPublished := Time 300 500000000\<rparr>)
     (AddEmbed \<lparr>url = ''https://discord.example/2'', Content = [], Username = [],
                AvatarURL = [], TTS = False, Embeds = None, Mentions = None\<rparr>
        (payload demo_world demo_feed demo_B (text_html [])))
     (Send demo_world 6
        (AddEmbed \<lparr>url = ''https://discord.example/2'', Content = [], Username = [],
                   AvatarURL = [], TTS = False, Embeds = None, Mentions = None\<rparr>
           (payload demo_world demo_feed demo_B (text_html []))))
     \<in> set (trace (state_of (processFeed demo_world demo_feed)))"
    unfolding demo_send_def .
  from watermark_set_before_send [THEN conjunct1, rule_format, OF mem]
  have one: "(\<exists>rssFeed news p doc.
        ParseURLWithContext demo_world (URL demo_feed) = Inr rssFeed
      \<and> news \<in> set (sort_Sort demo_world (Items rssFeed))
      \<and> PublishedParsed news = Some p \<and> Unix (LastPublished demo_feed) < Unix p
      \<and> Embeds (AddEmbed \<lparr>url = ''https://discord.example/2'', Content = [], Username = [],
                AvatarURL = [], TTS = False, Embeds = None, Mentions = None\<rparr>
                   (payload demo_world demo_feed demo_B (text_html [])))
          = Some [payload demo_world demo_feed news doc]
      \<and> Timestamp (payload demo_world demo_feed news doc) = Some p
      \<and> LastPublished (demo_feed\<lparr>LastPublished := Time 300 500000000\<rparr>) = p
      \<and> \<not> Unix (LastPublished (demo_feed\<lparr>LastPublished := Time 300 500000000\<rparr>)) < Unix p
      \<and> \<not> newer (feed (state_of (processFeed demo_world demo_feed))) news)" .
  have h: "ParseURLWithContext deaf_world (URL demo_feed) = Inr demo_doc
      \<and> \<not> sort_panics (Items demo_doc)
      \<and> UpdatedParsed demo_doc = Some (Time 400 0)
      \<and> Unix (LastUpdated demo_feed) < Unix (Time 400 0)
      \<and> sort_Sort deaf_world (Items demo_doc) = [demo_D, demo_C, demo_B] @ demo_A # []
      \<and> items_loop deaf_world [demo_D, demo_C, demo_B] \<lparr>feed = demo_feed, trace = []\<rparr>
          = Returned \<lparr>feed = demo_feed\<lparr>LastPublished := Time 300 500000000\<rparr>, trace = []\<rparr>
      \<and> PublishedParsed demo_A = Some (Time 400 0)
      \<and> Unix (LastPublished (feed \<lparr>feed = demo_feed\<lparr>LastPublished := Time 300 500000000\<rparr>,
            trace = []\<rparr>)) < Unix (Time 400 0)"
    by (simp add: sort_panics_def demo_sorted demo_doc_def)
  have h3: "ParseURLWithContext deaf_world (URL demo_feed) = Inr demo_doc
      \<and> UpdatedParsed demo_doc = Some (Time 400 0)
      \<and> Unix (LastUpdated demo_feed) < Unix (Time 400 0)
      \<and> returned (processFeed deaf_world demo_feed)
      \<and> demo_C \<in> set (sort_Sort deaf_world (Items demo_doc))"
    by (simp add: deaf_run demo_sorted demo_doc_def)
  note t = watermark_set_before_send [where env = deaf_world and fd = demo_feed
      and feed_doc = demo_doc and updated = "Time 400 0" and pre = "[demo_D, demo_C, demo_B]"
      and post = "[]" and q = "Time 400 0"
      and s = "\<lparr>feed = demo_feed\<lparr>LastPublished := Time 300 500000000\<rparr>, trace = []\<rparr>"]
  from t [where entry = demo_A] h
  have two: "LastPublished (feed (state_of (items_loop deaf_world ([demo_D, demo_C, demo_B] @ [demo_A])
         \<lparr>feed = demo_feed, trace = []\<rparr>))) = Time 400 0
     \<and> \<not> newer (feed (state_of (processFeed deaf_world demo_feed))) demo_A"
    by blast
  from watermark_set_before_send [where env = deaf_world and fd = demo_feed
      and feed_doc = demo_doc and updated = "Time 400 0" and entry = demo_C] h3
  have three: "\<not> newer (feed (state_of (processFeed deaf_world demo_feed))) demo_C"
    by blast
  have none: "send_attempts (trace (state_of (processFeed deaf_world demo_feed))) = []"
    by (simp add: deaf_run send_attempts_def)
  from mem one h h3 two three none show ?thesis by simp
qed


section \<open>The image and the thumbnail\<close>

lemma embeds_of_demo_send [simp]:
  "embeds_of (demo_send news p doc h k) = [payload demo_world demo_feed news doc]"
  by (simp add: demo_send_def AddEmbed_def)

lemma is_send_demo_send [simp]: "is_send (demo_send news p doc h k)"
  by (simp add: demo_send_def)

lemma demo_sent_embeds:
  "sent_embeds (trace (state_of (processFeed demo_world demo_feed))) =
     [payload demo_world demo_feed demo_C (text_html (replicate 501 (CHR ''a''))),
      payload demo_world demo_feed demo_C (text_html (replicate 501 (CHR ''a''))),
      payload demo_world demo_feed demo_B (text_html []),
      payload demo_world demo_feed demo_B (text_html []),
      payload demo_world demo_feed demo_A demo_A_html,
      payload demo_world demo_feed demo_A demo_A_html]"
  by (simp add: demo_run demo_trace_def sent_embeds_def)

lemma first_image_eq:
  "first_image doc =
     (case Find doc ''img'' of
        [] \<Rightarrow> []
      | s # ss \<Rightarrow> (case Attr s ''src'' of None \<Rightarrow> [] | Some src \<Rightarrow> src))"
  by (simp add: first_image_def split: list.splits option.splits)

lemma payload_images:
  "Thumbnail (payload env fd news doc) =
     (case ItemImage news of
        None \<Rightarrow> Some branding
      | Some im \<Rightarrow> Some (EmbedThumbnail (ImageURL im) [] 0 0))"
  "Image (payload env fd news doc) =
     (if first_image doc = [] then None else Some (EmbedImage (first_image doc) [] 0 0))"
  by (simp_all add: payload_def newEmbed_def Let_def branding_def split: option.splits)

lemma demo_first_images:
  "first_image (text_html s) = []" "first_image demo_A_html = ''a.png''"
  by (simp_all add: first_image_eq text_html_def demo_A_html_def)

text \<open>
  Claim C8, as stated, fails. In the demo run the entries \<open>B\<close> and \<open>A\<close> have an image
  of their own, yet the image block of the embeds sent for \<open>B\<close> is unset, and the one
  for \<open>A\<close> is the image of its description, not its own.
\<close>

theorem image_block_counterexample:
  "map ItemImage [demo_C, demo_B, demo_A]
     = [None, Some (gofeed_Image ''https://example.org/b-entry.png'' []),
        Some (gofeed_Image ''https://example.org/a-entry.png'' [])]
   \<and> map Image (sent_embeds (trace (state_of (processFeed demo_world demo_feed))))
     = [None, None, None, None,
        Some (EmbedImage ''a.png'' [] 0 0), Some (EmbedImage ''a.png'' [] 0 0)]"
  by (simp add: demo_sent_embeds payload_images demo_first_images
      demo_A_def demo_B_def demo_C_def)

text \<open>
  Claim C8, as amended. For every rendered payload, the thumbnail is set from the
  entry's own structured image when that is present, and stays at the branding default
  when it is absent; independently of that, the image block is set from the \<open>src\<close> of
  the first \<open>img\<close> element of the description HTML when that is a non-empty string,
  and is left unset otherwise. Every embed a run sends is such a payload, for an
  entry of the fetched document that was selected for dispatch.
\<close>

theorem image_and_thumbnail:
  "Thumbnail (payload env fd news doc) =
     (case ItemImage news of
        None \<Rightarrow> Some branding
      | Some im \<Rightarrow> Some (EmbedThumbnail (ImageURL im) [] 0 0))
   \<and> Image (payload env fd news doc) =
     (if first_image doc = [] then None else Some (EmbedImage (first_image doc) [] 0 0))
   \<and> first_image doc =
     (case Find doc ''img'' of
        [] \<Rightarrow> []
      | s # ss \<Rightarrow> (case Attr s ''src'' of None \<Rightarrow> [] | Some src \<Rightarrow> src))
   \<and> (e \<in> set (sent_embeds (trace (state_of (processFeed env fd)))) \<longrightarrow>
        (\<exists>rssFeed item p html. ParseURLWithContext env (URL fd) = Inr rssFeed
           \<and> item \<in> set (sort_Sort env (Items rssFeed))
           \<and> PublishedParsed item = Some p \<and> Unix (LastPublished fd) < Unix p
           \<and> NewDocumentFromReader env (ItemDescription item) = Inr html
           \<and> e = payload env fd item html))"
  using payload_images [of env fd news doc] first_image_eq [of doc]
    processFeed_sent_embed [of e env fd] by blast

theorem image_and_thumbnail_witness:
  "payload demo_world demo_feed demo_A demo_A_html
     \<in> set (sent_embeds (trace (state_of (processFeed demo_world demo_feed))))
   \<and> Thumbnail (payload demo_world demo_feed demo_A demo_A_html)
       = Some (EmbedThumbnail ''https://example.org/a-entry.png'' [] 0 0)
   \<and> Image (payload demo_world demo_feed demo_A demo_A_html)
       = Some (EmbedImage ''a.png'' [] 0 0)
   \<and> Thumbnail (payload demo_world demo_feed demo_C (text_html (replicate 501 (CHR ''a''))))
       = Some branding
   \<and> Image (payload demo_world demo_feed demo_C (text_html (replicate 501 (CHR ''a''))))
       = None
   \<and> (\<exists>rssFeed item p html. ParseURLWithContext demo_world (URL demo_feed) = Inr rssFeed
           \<and> item \<in> set (sort_Sort demo_world (Items rssFeed))
           \<and> PublishedParsed item = Some p \<and> Unix (LastPublished demo_feed) < Unix p
           \<and> NewDocumentFromReader demo_world (ItemDescription item) = Inr html
           \<and> payload demo_world demo_feed demo_A demo_A_html
               = payload demo_world demo_feed item html)"
proof -
  have mem: "payload demo_world demo_feed demo_A demo_A_html
     \<in> set (sent_embeds (trace (state_of (processFeed demo_world demo_feed))))"
    by (simp add: demo_sent_embeds)
  note a = image_and_thumbnail [of demo_world demo_feed demo_A demo_A_html
      "payload demo_world demo_feed demo_A demo_A_html"]
  note c = image_and_thumbnail [of demo_world demo_feed demo_C
      "text_html (replicate 501 (CHR ''a''))" "payload demo_world demo_feed demo_A demo_A_html"]
  have "Thumbnail (payload demo_world demo_feed demo_A demo_A_html)
       = Some (EmbedThumbnail ''https://example.org/a-entry.png'' [] 0 0)"
    "Image (payload demo_world demo_feed demo_A demo_A_html) = Some (EmbedImage ''a.png'' [] 0 0)"
    using a by (simp_all add: demo_A_def demo_first_images)
  moreover have
    "Thumbnail (payload demo_world demo_feed demo_C (text_html (replicate 501 (CHR ''a''))))
       = Some branding"
    "Image (payload demo_world demo_feed demo_C (text_html (replicate 501 (CHR ''a'')))) = None"
    using c by (simp_all add: demo_C_def demo_first_images)
  ultimately show ?thesis using a mem by blast
qed


section \<open>The description\<close>











lemma payload_description:
  "Description (payload env fd news doc) = take 500 (sanitized env (ItemDescription news)) @ ''...''"
  by (simp add: payload_def newEmbed_def Let_def cap_of_def split: option.splits)






text \<open>
  Claim C10. The marker \<open>...\<close> is appended to every rendered description, truncated or
  not: the payload description is the first 500 bytes of the sanitized description
  followed by \<open>...\<close>, hence the whole sanitized description followed by \<open>...\<close> when that
  has 500 bytes or fewer, and exactly \<open>...\<close> when it is empty. Every embed a run sends
  is such a payload.
\<close>

theorem ellipsis_appended_always:
  "Description (payload env fd news doc)
     = take 500 (sanitized env (ItemDescription news)) @ ''...''
   \<and> (length (sanitized env (ItemDescription news)) \<le> 500 \<longrightarrow>
        Description (payload env fd news doc) = sanitized env (ItemDescription news) @ ''...'')
   \<and> (sanitized env (ItemDescription news) = [] \<longrightarrow>
        Description (payload env fd news doc) = ''...'')
   \<and> (e \<in> set (sent_embeds (trace (state_of (processFeed env fd)))) \<longrightarrow>
        (\<exists>rssFeed item p html. ParseURLWithContext env (URL fd) = Inr rssFeed
           \<and> item \<in> set (sort_Sort env (Items rssFeed))
           \<and> PublishedParsed item = Some p \<and> Unix (LastPublished fd) < Unix p
           \<and> NewDocumentFromReader env (ItemDescription item) = Inr html
           \<and> e = payload env fd item html))"
  using processFeed_sent_embed [of e env fd]
  by (auto simp: payload_description)

theorem ellipsis_appended_always_witness:
  "sanitized demo_world (ItemDescription demo_B) = []
   \<and> length (sanitized demo_world (ItemDescription demo_B)) \<le> 500
   \<and> Description (payload demo_world demo_feed demo_B (text_html [])) = ''...''
   \<and> payload demo_world demo_feed demo_B (text_html [])
       \<in> set (sent_embeds (trace (state_of (processFeed demo_world demo_feed))))
   \<and> (\<exists>rssFeed item p html. ParseURLWithContext demo_world (URL demo_feed) = Inr rssFeed
           \<and> item \<in> set (sort_Sort demo_world (Items rssFeed))
           \<and> PublishedParsed item = Some p \<and> Unix (LastPublished demo_feed) < Unix p
           \<and> NewDocumentFromReader demo_world (ItemDescription item) = Inr html
           \<and> payload demo_world demo_feed demo_B (text_html [])
               = payload demo_world demo_feed item html)"
proof -
  have h1: "sanitized demo_world (ItemDescription demo_B) = []"
    by (simp add: sanitized_def)
  have h3: "payload demo_world demo_feed demo_B (text_html [])
       \<in> set (sent_embeds (trace (state_of (processFeed demo_world demo_feed))))"
    by (simp add: demo_sent_embeds)
  note t = ellipsis_appended_always [where env = demo_world and fd = demo_feed
      and news = demo_B and doc = "text_html []"
      and e = "payload demo_world demo_feed demo_B (text_html [])"]
  from t h1 h3 show ?thesis by simp
qed



section \<open>How many send attempts, and in which order\<close>

lemma paced_append: "paced a \<Longrightarrow> paced b \<Longrightarrow> paced (a @ b)"
  by (induction a rule: paced.induct) simp_all

lemma hooks_loop_paced:
  "paced (trace st) \<Longrightarrow> paced (trace (state_of (hooks_loop env news desc cap img hooks st)))"
proof (induction hooks arbitrary: st)
  case Nil
  then show ?case by simp
next
  case (Cons h hooks)
  show ?case
  proof (cases "NewMessage env h True")
    case (Inl err)
    with Cons.prems show ?thesis by simp
  next
    case (Inr msg0)
    have "paced (trace st @ [SendAttempt (feed st) (AddEmbed msg0 (newEmbed (feed st) news desc cap img))
         (Send env (length (trace st)) (AddEmbed msg0 (newEmbed (feed st) news desc cap img))),
       Sleep 100])"
      using Cons.prems by (rule paced_append) simp
    then show ?thesis using Inr by (simp add: Let_def Cons.IH)
  qed
qed

lemma items_loop_paced:
  "paced (trace st) \<Longrightarrow> paced (trace (state_of (items_loop env items st)))"
proof (induction items arbitrary: st)
  case Nil
  then show ?case by simp
next
  case (Cons news rest)
  show ?case
  proof (cases "PublishedParsed news")
    case None
    with Cons.prems show ?thesis by simp
  next
    case (Some p)
    show ?thesis
    proof (cases "Unix (LastPublished (feed st)) < Unix p")
      case False
      with Some Cons show ?thesis by simp
    next
      case True
      define st1 where "st1 = st\<lparr>feed := (feed st)\<lparr>LastPublished := p\<rparr>\<rparr>"
      have p1: "paced (trace st1)" using Cons.prems by (simp add: st1_def)
      show ?thesis
      proof (cases "NewDocumentFromReader env (ItemDescription news)")
        case (Inl err)
        with Some True Cons.IH [OF p1] show ?thesis by (simp add: st1_def)
      next
        case (Inr doc)
        define r where "r = hooks_loop env news (sanitized env (ItemDescription news))
           (cap_of (sanitized env (ItemDescription news))) (first_image doc) (Hooks (feed st1)) st1"
        have pr: "paced (trace (state_of r))" unfolding r_def using p1 by (rule hooks_loop_paced)
        show ?thesis
        proof (cases r)
          case (Returned st2)
          with pr have "paced (trace st2)" by simp
          from Cons.IH [OF this] Some True Inr Returned show ?thesis
            by (simp add: Let_def r_def st1_def)
        next
          case (Panicked msg st2)
          with pr Some True Inr show ?thesis by (simp add: Let_def r_def st1_def)
        qed
      qed
    qed
  qed
qed

lemma processFeed_paced: "paced (trace (state_of (processFeed env fd)))"
proof (cases rule: processFeed_cases [of env fd])
  case (panic rssFeed updated msg st1)
  from items_loop_paced [of "\<lparr>feed = fd, trace = []\<rparr>" env "sort_Sort env (Items rssFeed)"]
  show ?thesis unfolding panic(5,6) by simp
next
  case (finished rssFeed updated st1)
  from items_loop_paced [of "\<lparr>feed = fd, trace = []\<rparr>" env "sort_Sort env (Items rssFeed)"]
  show ?thesis unfolding finished(5,6) by simp
qed simp_all

lemma dispatch_outline:
  assumes fetch: "ParseURLWithContext env (URL fd) = Inr rssFeed"
    and upd: "UpdatedParsed rssFeed = Some updated" "Unix (LastUpdated fd) < Unix updated"
    and stamped: "None \<notin> set (map PublishedParsed (Items rssFeed))"
    and perm: "mset (sort_Sort env (Items rssFeed)) = mset (Items rssFeed)"
    and ordered: "sorted_wrt (\<lambda>a b. \<not> earlier b a) (sort_Sort env (Items rssFeed))"
    and apart: "distinct (map published_unix (new_entries fd (Items rssFeed)))"
    and parsed: "list_all (\<lambda>news. \<not> isl (NewDocumentFromReader env (ItemDescription news)))
                   (new_entries fd (Items rssFeed))"
    and hooks: "list_all (\<lambda>h. \<not> isl (url_Parse env h)) (Hooks fd)"
  shows "returned (processFeed env fd)
    \<and> map outline_of (trace (state_of (processFeed env fd)))
        = concat (map (deliveries env fd) (new_entries fd (sort_Sort env (Items rssFeed))))
    \<and> length (send_attempts (trace (state_of (processFeed env fd))))
        = length (new_entries fd (Items rssFeed)) * length (Hooks fd)"
proof -
  let ?items = "sort_Sort env (Items rssFeed)"
  let ?st = "\<lparr>feed = fd, trace = []\<rparr>"
  from perm have sets: "set ?items = set (Items rssFeed)" by (rule mset_eq_setD)
  have a1: "None \<notin> set (map PublishedParsed ?items)" using stamped sets by simp
  have a2: "list_all (\<lambda>news. \<not> isl (NewDocumentFromReader env (ItemDescription news)))
      (new_entries (feed ?st) ?items)"
    using parsed sets by (simp add: list_all_iff new_entries_def)
  have a3: "list_all (\<lambda>h. \<not> isl (url_Parse env h)) (Hooks (feed ?st))" using hooks by simp
  have a4: "sorted_wrt (\<lambda>a b. published_unix a \<le> published_unix b) ?items"
  proof (rule sorted_wrt_mono_rel [OF _ ordered])
    fix a b assume "a \<in> set ?items" "b \<in> set ?items" "\<not> earlier b a"
    with a1 show "published_unix a \<le> published_unix b"
      by (cases "PublishedParsed a"; cases "PublishedParsed b")
         (auto simp: earlier_def Before_def published_unix_def image_iff)
  qed
  have a5: "distinct (map published_unix (new_entries (feed ?st) ?items))"
    using apart new_entries_perm(2) [OF perm, of fd] by simp
  from items_loop_outline [OF a1 a2 a3 a4 a5] obtain st1 where
    st1: "items_loop env ?items ?st = Returned st1"
      "map outline_of (trace st1) = concat (map (deliveries env fd) (new_entries fd ?items))"
    by auto
  have no_panic: "\<not> sort_panics (Items rssFeed)" using stamped by (simp add: sort_panics_def)
  have run: "processFeed env fd
     = Returned (st1\<lparr>feed := (feed st1)\<lparr>LastUpdated := updated, LastRun := Now env\<rparr>\<rparr>)"
    using fetch upd no_panic st1(1) by (simp add: processFeed_def)
  have "length (send_attempts (trace st1))
      = length (new_entries fd ?items) * length (Hooks fd)"
    unfolding send_attempts_def count_outline st1(2) by (rule count_entries)
  also have "length (new_entries fd ?items) = length (new_entries fd (Items rssFeed))"
    by (rule new_entries_perm(1) [OF perm])
  finally show ?thesis using st1(2) by (simp add: run)
qed

lemma tie_sel [simp]:
  "ParseURLWithContext tie_world u = Inr tie_doc"
  "sort_Sort tie_world = insertion_sort"
  "NewDocumentFromReader tie_world s =
     (if s = ''<p>Hi</p><img src=a.png>'' then Inr demo_A_html else Inr (text_html s))"
  "url_Parse tie_world h = Inr h"
  "Hooks tie_feed = [''https://discord.example/1'']"
  "LastPublished tie_feed = Time 150 0" "LastUpdated tie_feed = Time 350 0"
  "PublishedParsed tie_1 = Some (Time 300 0)" "ItemDescription tie_1 = ''one''"
  "PublishedParsed tie_2 = Some (Time 300 0)" "ItemDescription tie_2 = ''two''"
  by (simp_all add: tie_world_def tie_feed_def demo_world_def demo_feed_def tie_1_def tie_2_def)

lemma tie_run:
  "length (send_attempts (trace (state_of (processFeed tie_world tie_feed)))) = 1"
  by (simp add: processFeed_def sort_panics_def tie_doc_def insertion_sort_def earlier_def
      Before_def NewMessage_def Let_def send_attempts_def)

text \<open>
  Claim C3, as stated, fails. Two entries published in the same second are both newer
  than the stored \<open>LastPublished\<close>; with one hook the claim asks for two send
  attempts, and the run makes one: the first entry moves the watermark to their
  common second, and the strict comparison then skips the second entry.
\<close>

theorem dispatch_count_counterexample:
  "ParseURLWithContext tie_world (URL tie_feed) = Inr tie_doc
   \<and> length (new_entries tie_feed (Items tie_doc)) = 2
   \<and> length (Hooks tie_feed) = 1
   \<and> length (send_attempts (trace (state_of (processFeed tie_world tie_feed)))) = 1
   \<and> length (send_attempts (trace (state_of (processFeed tie_world tie_feed))))
       \<noteq> length (new_entries tie_feed (Items tie_doc)) * length (Hooks tie_feed)"
  by (simp add: tie_run new_entries_def newer_def tie_doc_def)

text \<open>
  Claim C3, as amended. In every run each send attempt is followed at once by a sleep
  of 100 milliseconds, whatever \<open>Send\<close> returned. Take a successful fetch of a document
  \<^item> whose feed-level timestamp is, in whole Unix seconds, strictly greater than the
    stored \<open>LastUpdated\<close> (a timestamp later by less than a second does not count),
  \<^item> whose entries all have a publish timestamp,
  \<^item> whose entries \<open>sort.Sort\<close> leaves as a permutation of themselves in which no entry
    stands before an earlier one,
  \<^item> whose N entries with a publish timestamp strictly greater, in whole Unix seconds,
    than the stored \<open>LastPublished\<close> have pairwise distinct publish timestamps in Unix
    seconds and descriptions that parse,

  for a feed with D hooks whose URLs all parse. Then the run returns, it makes exactly
  N times D send attempts, and its effects are, entry by entry in sorted order and hook
  by hook in configured order, the send attempt of the message for that entry and hook
  and a sleep of 100 milliseconds.
\<close>

theorem dispatch_order:
  "paced (trace (state_of (processFeed env fd)))
   \<and> (ParseURLWithContext env (URL fd) = Inr rssFeed
      \<and> UpdatedParsed rssFeed = Some updated \<and> Unix (LastUpdated fd) < Unix updated
      \<and> None \<notin> set (map PublishedParsed (Items rssFeed))
      \<and> mset (sort_Sort env (Items rssFeed)) = mset (Items rssFeed)
      \<and> sorted_wrt (\<lambda>a b. \<not> earlier b a) (sort_Sort env (Items rssFeed))
      \<and> distinct (map published_unix (new_entries fd (Items rssFeed)))
      \<and> list_all (\<lambda>news. \<not> isl (NewDocumentFromReader env (ItemDescription news)))
           (new_entries fd (Items rssFeed))
      \<and> list_all (\<lambda>h. \<not> isl (url_Parse env h)) (Hooks fd)
      \<longrightarrow> returned (processFeed env fd)
        \<and> map outline_of (trace (state_of (processFeed env fd)))
            = concat (map (deliveries env fd) (new_entries fd (sort_Sort env (Items rssFeed))))
        \<and> length (send_attempts (trace (state_of (processFeed env fd))))
            = length (new_entries fd (Items rssFeed)) * length (Hooks fd))"
  using processFeed_paced [of env fd] dispatch_outline [of env fd rssFeed updated] by blast

theorem dispatch_order_witness:
  "ParseURLWithContext demo_world (URL demo_feed) = Inr demo_doc
   \<and> UpdatedParsed demo_doc = Some (Time 400 0)
   \<and> Unix (LastUpdated demo_feed) < Unix (Time 400 0)
   \<and> None \<notin> set (map PublishedParsed (Items demo_doc))
   \<and> mset (sort_Sort demo_world (Items demo_doc)) = mset (Items demo_doc)
   \<and> sorted_wrt (\<lambda>a b. \<not> earlier b a) (sort_Sort demo_world (Items demo_doc))
   \<and> distinct (map published_unix (new_entries demo_feed (Items demo_doc)))
   \<and> list_all (\<lambda>news. \<not> isl (NewDocumentFromReader demo_world (ItemDescription news)))
        (new_entries demo_feed (Items demo_doc))
   \<and> list_all (\<lambda>h. \<not> isl (url_Parse demo_world h)) (Hooks demo_feed)
   \<and> returned (processFeed demo_world demo_feed)
   \<and> map outline_of (trace (state_of (processFeed demo_world demo_feed)))
       = concat (map (deliveries demo_world demo_feed)
           (new_entries demo_feed (sort_Sort demo_world (Items demo_doc))))
   \<and> new_entries demo_feed (sort_Sort demo_world (Items demo_doc)) = [demo_C, demo_B, demo_A]
   \<and> length (send_attempts (trace (state_of (processFeed demo_world demo_feed)))) = 3 * 2"
proof -
  have h: "ParseURLWithContext demo_world (URL demo_feed) = Inr demo_doc
      \<and> UpdatedParsed demo_doc = Some (Time 400 0)
      \<and> Unix (LastUpdated demo_feed) < Unix (Time 400 0)
      \<and> None \<notin> set (map PublishedParsed (Items demo_doc))
      \<and> mset (sort_Sort demo_world (Items demo_doc)) = mset (Items demo_doc)
      \<and> sorted_wrt (\<lambda>a b. \<not> earlier b a) (sort_Sort demo_world (Items demo_doc))
      \<and> distinct (map published_unix (new_entries demo_feed (Items demo_doc)))
      \<and> list_all (\<lambda>news. \<not> isl (NewDocumentFromReader demo_world (ItemDescription news)))
           (new_entries demo_feed (Items demo_doc))
      \<and> list_all (\<lambda>h. \<not> isl (url_Parse demo_world h)) (Hooks demo_feed)"
    by (simp add: demo_doc_def demo_sorted earlier_def Before_def new_entries_def
        newer_def published_unix_def)
  have n: "new_entries demo_feed (sort_Sort demo_world (Items demo_doc)) = [demo_C, demo_B, demo_A]"
    "length (new_entries demo_feed (Items demo_doc)) = 3"
    by (simp_all add: demo_doc_def demo_sorted new_entries_def newer_def)
  from dispatch_order [of demo_world demo_feed demo_doc "Time 400 0"] h
  have "returned (processFeed demo_world demo_feed)
        \<and> map outline_of (trace (state_of (processFeed demo_world demo_feed)))
            = concat (map (deliveries demo_world demo_feed)
                (new_entries demo_feed (sort_Sort demo_world (Items demo_doc))))
        \<and> length (send_attempts (trace (state_of (processFeed demo_world demo_feed))))
            = length (new_entries demo_feed (Items demo_doc)) * length (Hooks demo_feed)"
    by blast
  with h n show ?thesis by simp
qed


end
